theory Spec2Isabelle
  imports Main "HOL-Library.AList"
begin

section \<open>Strings\<close>

text \<open>
  A Python \<open>str\<close> is a sequence of Unicode code points; \<open>len\<close> counts code points.
  The source's literals are Chinese, so a string is a list of code points here and
  every literal of the source is written out as its code points.
\<close>

type_synonym ustring = "nat list"

definition isspace :: "nat \<Rightarrow> bool" where
  "isspace c \<longleftrightarrow>
     (9 \<le> c \<and> c \<le> 13) \<or> (28 \<le> c \<and> c \<le> 32) \<or> c = 133 \<or> c = 160 \<or> c = 5760 \<or>
     (8192 \<le> c \<and> c \<le> 8202) \<or> c = 8232 \<or> c = 8233 \<or> c = 8239 \<or> c = 8287 \<or>
     c = 12288"

definition strip :: "ustring \<Rightarrow> ustring" where
  "strip s = rev (dropWhile isspace (rev (dropWhile isspace s)))"

text \<open>\<open>focus.split("\<dots>")[0]\<close> with the one-character separator U+FF1A.\<close>

definition split_head :: "nat \<Rightarrow> ustring \<Rightarrow> ustring" where
  "split_head sep s = takeWhile (\<lambda>c. c \<noteq> sep) s"

fun join :: "ustring \<Rightarrow> ustring list \<Rightarrow> ustring" where
  "join sep [] = []"
| "join sep [x] = x"
| "join sep (x # y # ys) = x @ sep @ join sep (y # ys)"

section \<open>Constants of the module\<close>

definition FOCUS_POINTS :: "ustring list" where
  "FOCUS_POINTS =
   [[20215, 26684, 21644, 20248, 24800, 65306, 20851, 27880, 21830, 21697, 30340, 20215, 26684,
     12289, 25240, 25187, 12289, 20248, 24800, 27963, 21160, 12289, 24615, 20215, 27604, 31561],
    [21151, 33021, 29305, 24615, 65306, 20851, 27880, 21830, 21697, 30340, 20027, 35201, 21151,
     33021, 12289, 29305, 33394, 21151, 33021, 12289, 21019, 26032, 28857, 31561],
    [35268, 26684, 21442, 25968, 65306, 20851, 27880, 21830, 21697, 30340, 25216, 26415, 21442,
     25968, 12289, 23610, 23544, 12289, 37325, 37327, 12289, 23481, 37327, 31561, 20855, 20307,
     25968, 25454],
    [20351, 29992, 22330, 26223, 65306, 20851, 27880, 21830, 21697, 36866, 21512, 22312, 20160,
     20040, 29615, 22659, 25110, 24773, 20917, 19979, 20351, 29992],
    [36866, 29992, 20154, 32676, 65306, 20851, 27880, 21830, 21697, 36866, 21512, 21738, 31867,
     20154, 32676, 20351, 29992, 65292, 22914, 24180, 40836, 27573, 12289, 32844, 19994, 12289,
     20852, 36259, 29233, 22909, 31561],
    [19982, 31454, 21697, 27604, 36739, 65306, 20851, 27880, 21830, 21697, 19982, 20854, 20182,
     21516, 31867, 20135, 21697, 30340, 21306, 21035, 12289, 20248, 21183],
    [21806, 21518, 26381, 21153, 65306, 20851, 27880, 20445, 20462, 12289, 36864, 25442, 36135,
     25919, 31574, 12289, 21806, 21518, 25903, 25345, 31561],
    [20351, 29992, 23551, 21629, 65306, 20851, 27880, 21830, 21697, 30340, 32784, 29992, 24230,
     12289, 30005, 27744, 32493, 33322, 12289, 20351, 29992, 24180, 38480, 31561],
    [22806, 35266, 35774, 35745, 65306, 20851, 27880, 21830, 21697, 30340, 39068, 33394, 12289,
     26448, 36136, 12289, 22806, 35266, 35774, 35745, 12289, 26102, 23578, 24230, 31561],
    [20351, 29992, 20307, 39564, 65306, 20851, 27880, 21830, 21697, 30340, 26131, 29992, 24615,
     12289, 33298, 36866, 24230, 12289, 29992, 25143, 35780, 20215, 31561],
    [23433, 35013, 35843, 35797, 65306, 20851, 27880, 21830, 21697, 30340, 23433, 35013, 38590,
     24230, 12289, 35843, 35797, 26041, 27861, 12289, 20860, 23481, 24615, 31561],
    [37197, 20214, 32791, 26448, 65306, 20851, 27880, 21830, 21697, 30340, 37197, 20214, 12289,
     32791, 26448, 20215, 26684, 12289, 26356, 25442, 39057, 29575, 31561],
    [29289, 27969, 21457, 36135, 65306, 20851, 27880, 21457, 36135, 26102, 38388, 12289, 29289,
     27969, 26041, 24335, 12289, 26159, 21542, 21253, 37038, 31561],
    [21830, 21697, 30495, 20266, 65306, 20851, 27880, 27491, 21697, 20445, 38556, 12289, 38450,
     20266, 39564, 35777, 31561],
    [21830, 21697, 24211, 23384, 65306, 20851, 27880, 26159, 21542, 26377, 36135, 12289, 20160,
     20040, 26102, 20505, 33021, 21457, 36135, 31561]]"

definition CONSTRAINTS :: "ustring list" where
  "CONSTRAINTS =
   [[38382, 39064, 35201, 38750, 24120, 31616, 30701, 65292, 19981, 36229, 36807, 49, 48, 20010,
     23383],
    [38382, 39064, 35201, 21253, 21547, 19968, 20010, 30097, 38382, 35789, 65292, 22914, 39,
     21527, 39, 12289, 39, 21602, 39, 12289, 39, 21543, 39, 31561],
    [38382, 39064, 35201, 30452, 25509, 20102, 24403, 65292, 19981, 38656, 35201, 31036, 35980,
     29992, 35821],
    [38382, 39064, 35201, 20687, 22312, 36319, 26379, 21451, 32842, 22825, 19968, 26679, 38543,
     24847],
    [38382, 39064, 21487, 20197, 20351, 29992, 19968, 20123, 32593, 32476, 29992, 35821, 25110,
     32553, 20889],
    [38382, 39064, 21487, 20197, 21253, 21547, 19968, 20123, 34920, 24773, 31526, 21495],
    [38382, 39064, 35201, 20687, 21254, 24537, 25171, 23383, 19968, 26679, 65292, 21487, 20197,
     30465, 30053, 19968, 20123, 23383]]"

text \<open>The fixed answer returned when every answer attempt has failed (line 284).\<close>

definition DEFAULT_ANSWER :: ustring where
  "DEFAULT_ANSWER =
   [20146, 65292, 36825, 20010, 38382, 39064, 30340, 31572, 26696, 21487, 20197, 22312, 21830,
    21697, 25551, 36848, 20013, 25214, 21040, 21602, 128522, 32, 22914, 26524, 24744, 26377,
    20854, 20182, 30097, 38382, 65292, 21487, 20197, 38543, 26102, 38382, 25105, 21734, 65374]"

text \<open>Dictionary keys: \<open>'id'\<close>, the Chinese id key, \<open>'name'\<close>.\<close>

definition KEY_id :: ustring where "KEY_id = [105, 100]"
definition KEY_cn_id :: ustring where "KEY_cn_id = [21830, 21697, 73, 68]"
definition KEY_name :: ustring where "KEY_name = [110, 97, 109, 101]"

section \<open>Data model\<close>

text \<open>
  An item is a Python dict. Attribute values are restricted to strings here; the empty
  string is the only falsy value of that type.
\<close>

type_synonym product = "ustring \<rightharpoonup> ustring"

text \<open>The dict \<open>{"id": \<dots>, "question": \<dots>, "answer": \<dots>}\<close> of line 319.\<close>

record qa_pair =
  pair_id :: ustring
  pair_question :: ustring
  pair_answer :: ustring

datatype error = IndexError | ValueError | TypeError | OSError

datatype registry = Focuses | Questions

datatype prompt =
    Question_prompt ustring ustring ustring
  | Answer_prompt ustring ustring

datatype reason = Too_short | Duplicate

datatype message =
    Msg_focus nat ustring
  | Msg_retry nat reason
  | Msg_question_failed nat nat
  | Msg_default_question nat
  | Msg_answer_failed nat nat
  | Msg_default_answer nat
  | Msg_saved nat ustring
  | Msg_skipped ustring
  | Msg_no_id ustring
  | Msg_load_error

text \<open>
  Everything the program does to the outside is appended to a trace: taking and giving
  back a slot of the semaphore, entering and leaving the lock of a \<open>SafeSet\<close>, a call of
  \<open>model.invoke\<close>, \<open>asyncio.sleep(1)\<close>, and the printed lines that the properties below
  speak about (progress banners are left out).
\<close>

datatype event =
    Sem_acquire
  | Sem_release
  | Lock_acquire registry
  | Lock_release registry
  | Invoke prompt
  | Sleep
  | Print message

text \<open>
  What the outside answers. \<open>model.invoke\<close> either raises or returns a message whose
  content is a string; a write either succeeds, fails at \<open>open\<close> (the file is left
  as it was) or fails after \<open>n\<close> characters (the file was truncated by \<open>open\<close>).
\<close>

datatype reply = Fails | Content ustring

datatype io_outcome = Io_ok | Open_fails | Write_fails nat

record env =
  service :: "nat \<Rightarrow> reply"
  random :: "nat \<Rightarrow> nat"
  disk :: "nat \<Rightarrow> io_outcome"
  uuid_hex :: "nat \<Rightarrow> ustring"

text \<open>
  The module's globals (\<open>semaphore\<close>, which is \<open>None\<close> until \<open>main_async\<close> sets it,
  \<open>used_focuses\<close>, \<open>used_questions\<close>), the files, and how many answers of each kind
  have been consumed from the outside.
\<close>

record world =
  semaphore :: "nat option"
  used_focuses :: "ustring set"
  used_questions :: "ustring set"
  files :: "ustring \<rightharpoonup> ustring"
  calls :: nat
  draws :: nat
  writes :: nat
  uuids :: nat
  trace :: "event list"

text \<open>
  A coroutine returns, raises, or waits forever on the semaphore.
\<close>

datatype 'a result = Return 'a world | Raise error world | Hang

definition emit :: "event list \<Rightarrow> world \<Rightarrow> world" where
  "emit es w = w\<lparr>trace := trace w @ es\<rparr>"

section \<open>The semaphore and random.choice\<close>

text \<open>
  \<open>async with semaphore\<close>: entering takes a slot and waits while there is none.
  Tasks are run one after the other here, so no other task can give a slot back
  and waiting never ends.
\<close>

definition sem_enter :: "world \<Rightarrow> unit result" where
  "sem_enter w =
     (case semaphore w of
        None \<Rightarrow> Raise TypeError w
      | Some 0 \<Rightarrow> Hang
      | Some (Suc n) \<Rightarrow> Return () (emit [Sem_acquire] (w\<lparr>semaphore := Some n\<rparr>)))"

definition sem_exit :: "world \<Rightarrow> world" where
  "sem_exit w =
     emit [Sem_release] (w\<lparr>semaphore := map_option Suc (semaphore w)\<rparr>)"

definition choice :: "env \<Rightarrow> 'a list \<Rightarrow> world \<Rightarrow> (error + 'a) \<times> world" where
  "choice e xs w =
     (if xs = [] then (Inl IndexError, w)
      else (Inr (xs ! (random e (draws w) mod length xs)), w\<lparr>draws := draws w + 1\<rparr>))"

section \<open>SafeSet\<close>

definition data :: "registry \<Rightarrow> world \<Rightarrow> ustring set" where
  "data r w = (case r of Focuses \<Rightarrow> used_focuses w | Questions \<Rightarrow> used_questions w)"

definition set_data :: "registry \<Rightarrow> ustring set \<Rightarrow> world \<Rightarrow> world" where
  "set_data r s w =
     (case r of Focuses \<Rightarrow> w\<lparr>used_focuses := s\<rparr> | Questions \<Rightarrow> w\<lparr>used_questions := s\<rparr>)"

definition SafeSet_add :: "registry \<Rightarrow> ustring \<Rightarrow> world \<Rightarrow> world" where
  "SafeSet_add r item w =
     emit [Lock_release r] (set_data r (insert item (data r w)) (emit [Lock_acquire r] w))"

definition SafeSet_contains :: "registry \<Rightarrow> ustring \<Rightarrow> world \<Rightarrow> bool \<times> world" where
  "SafeSet_contains r item w = (item \<in> data r w, emit [Lock_acquire r, Lock_release r] w)"

definition SafeSet_clear :: "registry \<Rightarrow> world \<Rightarrow> world" where
  "SafeSet_clear r w = emit [Lock_release r] (set_data r {} (emit [Lock_acquire r] w))"

definition SafeSet_get_copy :: "registry \<Rightarrow> world \<Rightarrow> ustring set \<times> world" where
  "SafeSet_get_copy r w = (data r w, emit [Lock_acquire r, Lock_release r] w)"

section \<open>generate_question\<close>

text \<open>Lines 173 to 182: the choice of a focus that has not been used.\<close>

definition pick_focus :: "env \<Rightarrow> world \<Rightarrow> (error + ustring) \<times> world" where
  "pick_focus e w =
     (let all_focuses = FOCUS_POINTS;
          (used, w1) = SafeSet_get_copy Focuses w;
          available_focuses = filter (\<lambda>f. f \<notin> used) all_focuses;
          (available_focuses, w2) =
             (if available_focuses = [] then (all_focuses, SafeSet_clear Focuses w1)
              else (available_focuses, w1))
      in case choice e available_focuses w2 of
           (Inl err, w3) \<Rightarrow> (Inl err, w3)
         | (Inr focus, w3) \<Rightarrow> (Inr focus, SafeSet_add Focuses focus w3))"

text \<open>
  One call of \<open>model.invoke\<close>: the prompt goes out, the next answer of the service
  comes back.
\<close>

definition invoke :: "env \<Rightarrow> prompt \<Rightarrow> world \<Rightarrow> reply \<times> world" where
  "invoke e p w = (service e (calls w), emit [Invoke p] (w\<lparr>calls := calls w + 1\<rparr>))"

text \<open>The \<open>except\<close> branch of the question loop (lines 229 to 231).\<close>

definition question_except :: "nat \<Rightarrow> nat \<Rightarrow> world \<Rightarrow> world" where
  "question_except qa_id attempt w =
     emit [Print (Msg_question_failed qa_id (attempt + 1)), Sleep] w"

text \<open>
  The loop \<open>for attempt in range(3)\<close> (lines 185 to 231) over the attempts that are
  left. \<open>Some question\<close> is the \<open>return\<close> of line 225, \<open>None\<close> is the loop running out.
\<close>

fun question_loop ::
  "env \<Rightarrow> ustring \<Rightarrow> ustring \<Rightarrow> nat \<Rightarrow> nat list \<Rightarrow> world \<Rightarrow> ustring option \<times> world" where
  "question_loop e product_info focus qa_id [] w = (None, w)"
| "question_loop e product_info focus qa_id (attempt # rest) w =
     (case choice e CONSTRAINTS w of
        (Inl err, w1) \<Rightarrow>
          question_loop e product_info focus qa_id rest (question_except qa_id attempt w1)
      | (Inr random_constraint, w1) \<Rightarrow>
          (let w2 = emit [Print (Msg_focus qa_id focus)] w1
           in case invoke e (Question_prompt random_constraint focus product_info) w2 of
                (Fails, w3) \<Rightarrow>
                  question_loop e product_info focus qa_id rest (question_except qa_id attempt w3)
              | (Content text, w3) \<Rightarrow>
                  (let question = strip text
                   in if question \<noteq> [] \<and> length question > 2
                      then (case SafeSet_contains Questions question w3 of
                              (False, w4) \<Rightarrow> (Some question, SafeSet_add Questions question w4)
                            | (True, w4) \<Rightarrow>
                                question_loop e product_info focus qa_id rest
                                  (emit [Print (Msg_retry qa_id Duplicate)] w4))
                      else question_loop e product_info focus qa_id rest
                             (emit [Print (Msg_retry qa_id Too_short)] w3))))"

text \<open>Lines 234 and 235: the question built from the item's name and the focus.\<close>

definition default_question :: "ustring \<Rightarrow> ustring \<Rightarrow> ustring" where
  "default_question product_name focus =
     (let focus_keywords = split_head 65306 focus
      in [36825, 27454] @ product_name @ [30340] @ focus_keywords @ [24590, 20040, 26679, 65311])"

definition generate_question ::
  "env \<Rightarrow> ustring \<Rightarrow> ustring \<Rightarrow> nat \<Rightarrow> world \<Rightarrow> ustring result" where
  "generate_question e product_info product_name qa_id w =
     (case sem_enter w of
        Raise err w' \<Rightarrow> Raise err w'
      | Hang \<Rightarrow> Hang
      | Return _ w0 \<Rightarrow>
          (case pick_focus e w0 of
             (Inl err, w1) \<Rightarrow> Raise err (sem_exit w1)
           | (Inr focus, w1) \<Rightarrow>
               (case question_loop e product_info focus qa_id [0, 1, 2] w1 of
                  (Some question, w2) \<Rightarrow> Return question (sem_exit w2)
                | (None, w2) \<Rightarrow>
                    (let default_q = default_question product_name focus;
                         w3 = SafeSet_add Questions default_q w2;
                         w4 = emit [Print (Msg_default_question qa_id)] w3
                     in Return default_q (sem_exit w4)))))"

section \<open>generate_answer\<close>

fun answer_loop ::
  "env \<Rightarrow> ustring \<Rightarrow> ustring \<Rightarrow> nat \<Rightarrow> nat list \<Rightarrow> world \<Rightarrow> ustring option \<times> world" where
  "answer_loop e product_info question qa_id [] w = (None, w)"
| "answer_loop e product_info question qa_id (attempt # rest) w =
     (case invoke e (Answer_prompt product_info question) w of
        (Content text, w1) \<Rightarrow> (Some (strip text), w1)
      | (Fails, w1) \<Rightarrow>
          answer_loop e product_info question qa_id rest
            (emit [Print (Msg_answer_failed qa_id (attempt + 1)), Sleep] w1))"

definition generate_answer ::
  "env \<Rightarrow> ustring \<Rightarrow> ustring \<Rightarrow> nat \<Rightarrow> world \<Rightarrow> ustring result" where
  "generate_answer e product_info question qa_id w =
     (case sem_enter w of
        Raise err w' \<Rightarrow> Raise err w'
      | Hang \<Rightarrow> Hang
      | Return _ w0 \<Rightarrow>
          (case answer_loop e product_info question qa_id [0, 1, 2] w0 of
             (Some answer, w1) \<Rightarrow> Return answer (sem_exit w1)
           | (None, w1) \<Rightarrow>
               Return DEFAULT_ANSWER (sem_exit (emit [Print (Msg_default_answer qa_id)] w1))))"

section \<open>One pair, and the pairs of one item\<close>

definition generate_single_qa_pair ::
  "env \<Rightarrow> ustring \<Rightarrow> ustring \<Rightarrow> ustring \<Rightarrow> nat \<Rightarrow> world \<Rightarrow> qa_pair result" where
  "generate_single_qa_pair e product_id product_info product_name qa_id w =
     (case generate_question e product_info product_name qa_id w of
        Raise err w' \<Rightarrow> Raise err w'
      | Hang \<Rightarrow> Hang
      | Return question w1 \<Rightarrow>
          (case generate_answer e product_info question qa_id w1 of
             Raise err w' \<Rightarrow> Raise err w'
           | Hang \<Rightarrow> Hang
           | Return answer w2 \<Rightarrow>
               Return \<lparr>pair_id = product_id, pair_question = question, pair_answer = answer\<rparr> w2))"

text \<open>
  \<open>format_product_info\<close>. Its second loop only adds lines for attributes whose value
  is a dict or a list, so with string values the text is the lines of the standard
  fields that are present and not empty, in the order of \<open>std_fields\<close>.
\<close>

definition std_fields :: "(ustring \<times> ustring) list" where
  "std_fields =
   [([105, 100], [73, 68]),
    ([21830, 21697, 73, 68], [21830, 21697, 73, 68]),
    ([110, 97, 109, 101], [21517, 31216]),
    ([21830, 21697, 21517, 31216], [21830, 21697, 21517, 31216]),
    ([100, 101, 115, 99, 114, 105, 112, 116, 105, 111, 110], [25551, 36848]),
    ([21830, 21697, 25551, 36848], [21830, 21697, 25551, 36848]),
    ([112, 114, 105, 99, 101], [20215, 26684]),
    ([20215, 26684], [20215, 26684]),
    ([98, 114, 97, 110, 100], [21697, 29260]),
    ([21697, 29260], [21697, 29260]),
    ([99, 97, 116, 101, 103, 111, 114, 121], [31867, 21035]),
    ([31867, 21035], [31867, 21035])]"

definition format_product_info :: "product \<Rightarrow> ustring" where
  "format_product_info product =
     join [10]
       (concat (map (\<lambda>(field, label).
                       case product field of
                         None \<Rightarrow> []
                       | Some v \<Rightarrow> if v \<noteq> [] then [label @ [58, 32] @ v] else [])
                    std_fields))"

text \<open>
  \<open>asyncio.gather\<close> over the tasks of one item. The tasks are run to their end one
  after the other, in the order in which they were created; the list of results is
  in that order, as \<open>gather\<close> returns it.
\<close>

fun gather :: "(nat \<Rightarrow> world \<Rightarrow> 'a result) \<Rightarrow> nat list \<Rightarrow> world \<Rightarrow> 'a list result" where
  "gather task [] w = Return [] w"
| "gather task (i # rest) w =
     (case task i w of
        Raise err w' \<Rightarrow> Raise err w'
      | Hang \<Rightarrow> Hang
      | Return x w1 \<Rightarrow>
          (case gather task rest w1 of
             Raise err w' \<Rightarrow> Raise err w'
           | Hang \<Rightarrow> Hang
           | Return xs w2 \<Rightarrow> Return (x # xs) w2))"

definition generate_qa_pair ::
  "env \<Rightarrow> ustring \<Rightarrow> product \<Rightarrow> int \<Rightarrow> nat \<Rightarrow> world \<Rightarrow> qa_pair list result" where
  "generate_qa_pair e product_id product num_pairs start_qa_id w =
     (let product_info = format_product_info product;
          product_name = (case product KEY_name of None \<Rightarrow> [] | Some n \<Rightarrow> n)
      in gather (\<lambda>i. generate_single_qa_pair e product_id product_info product_name
                        (start_qa_id + i))
           [0..<nat num_pairs] w)"

section \<open>save_qa_pairs\<close>

text \<open>
  \<open>json.dumps(qa_pairs, ensure_ascii=False, indent=2)\<close> for a list of dicts with the
  three string entries: the escapes of the standard encoder, two spaces of indentation
  for each level.
\<close>

definition hex_digit :: "nat \<Rightarrow> nat" where
  "hex_digit d = (if d < 10 then 48 + d else 87 + d)"

definition json_escape :: "nat \<Rightarrow> ustring" where
  "json_escape c =
     (if c = 34 then [92, 34]
      else if c = 92 then [92, 92]
      else if c = 10 then [92, 110]
      else if c = 13 then [92, 114]
      else if c = 9 then [92, 116]
      else if c = 8 then [92, 98]
      else if c = 12 then [92, 102]
      else if c < 32 then [92, 117, 48, 48, hex_digit (c div 16), hex_digit (c mod 16)]
      else [c])"

definition json_string :: "ustring \<Rightarrow> ustring" where
  "json_string s = [34] @ concat (map json_escape s) @ [34]"

definition json_object :: "qa_pair \<Rightarrow> ustring" where
  "json_object p =
     [123, 10, 32, 32, 32, 32] @ json_string [105, 100] @ [58, 32] @ json_string (pair_id p) @
     [44, 10, 32, 32, 32, 32] @ json_string [113, 117, 101, 115, 116, 105, 111, 110] @ [58, 32] @
       json_string (pair_question p) @
     [44, 10, 32, 32, 32, 32] @ json_string [97, 110, 115, 119, 101, 114] @ [58, 32] @
       json_string (pair_answer p) @
     [10, 32, 32, 125]"

definition json_dumps :: "qa_pair list \<Rightarrow> ustring" where
  "json_dumps qa_pairs =
     (if qa_pairs = [] then [91, 93]
      else [91, 10, 32, 32] @ join [44, 10, 32, 32] (map json_object qa_pairs) @ [10, 93])"

text \<open>Opening with mode \<open>'w'\<close> replaces what the file held.\<close>

definition save_qa_pairs :: "env \<Rightarrow> qa_pair list \<Rightarrow> ustring \<Rightarrow> world \<Rightarrow> unit result" where
  "save_qa_pairs e qa_pairs output_file w =
     (let w1 = w\<lparr>writes := writes w + 1\<rparr>
      in case disk e (writes w) of
           Open_fails \<Rightarrow> Raise OSError w1
         | Write_fails n \<Rightarrow>
             Raise OSError (w1\<lparr>files := (files w1)(output_file \<mapsto> take n (json_dumps qa_pairs))\<rparr>)
         | Io_ok \<Rightarrow>
             Return ()
               (emit [Print (Msg_saved (length qa_pairs) output_file)]
                  (w1\<lparr>files := (files w1)(output_file \<mapsto> json_dumps qa_pairs)\<rparr>)))"

section \<open>process_product\<close>

text \<open>
  The list \<open>total_qa_pairs\<close> is extended in place by the source; here the extended
  list is returned beside the count.
\<close>

definition process_product ::
  "env \<Rightarrow> ustring \<Rightarrow> product \<Rightarrow> int \<Rightarrow> qa_pair list \<Rightarrow> ustring \<Rightarrow> nat \<Rightarrow> world \<Rightarrow>
     (nat \<times> qa_pair list) result" where
  "process_product e product_id product num_pairs total_qa_pairs output_file start_qa_id w =
     (let qa_product_id = (case product KEY_id of None \<Rightarrow> product_id | Some i \<Rightarrow> i)
      in case generate_qa_pair e qa_product_id product num_pairs start_qa_id w of
           Raise err w' \<Rightarrow> Raise err w'
         | Hang \<Rightarrow> Hang
         | Return product_qa_pairs w1 \<Rightarrow>
             (let total_qa_pairs = total_qa_pairs @ product_qa_pairs
              in case save_qa_pairs e total_qa_pairs output_file w1 of
                   Raise err w' \<Rightarrow> Raise err w'
                 | Hang \<Rightarrow> Hang
                 | Return _ w2 \<Rightarrow> Return (length product_qa_pairs, total_qa_pairs) w2))"

section \<open>load_products\<close>

definition truthy :: "ustring option \<Rightarrow> bool" where
  "truthy v \<longleftrightarrow> v \<noteq> None \<and> v \<noteq> Some []"

text \<open>The body of the loop over the parsed items (lines 42 to 62).\<close>

definition load_one ::
  "env \<Rightarrow> product \<Rightarrow> (ustring \<times> product) list \<Rightarrow> world \<Rightarrow> (ustring \<times> product) list \<times> world" where
  "load_one e product products_dict w =
     (let product_id = product KEY_cn_id;
          product_id = (if \<not> truthy product_id then product KEY_id else product_id);
          (product_id, product, w1) =
             (if \<not> truthy product_id
              then (let fresh = [103, 101, 110, 95] @ take 8 (uuid_hex e (uuids w))
                    in (fresh, product(KEY_id \<mapsto> fresh),
                        emit [Print (Msg_no_id fresh)] (w\<lparr>uuids := uuids w + 1\<rparr>)))
              else (the product_id, product, w));
          product = (case (product KEY_id, product KEY_cn_id) of
                       (None, Some v) \<Rightarrow> product(KEY_id \<mapsto> v)
                     | _ \<Rightarrow> product);
          product = (case (product KEY_cn_id, product KEY_id) of
                       (None, Some v) \<Rightarrow> product(KEY_cn_id \<mapsto> v)
                     | _ \<Rightarrow> product)
      in (AList.update product_id product products_dict, w1))"

fun load_loop ::
  "env \<Rightarrow> product list \<Rightarrow> (ustring \<times> product) list \<Rightarrow> world \<Rightarrow> (ustring \<times> product) list \<times> world" where
  "load_loop e [] products_dict w = (products_dict, w)"
| "load_loop e (product # rest) products_dict w =
     (case load_one e product products_dict w of
        (products_dict, w1) \<Rightarrow> load_loop e rest products_dict w1)"

text \<open>
  The argument stands for the file at \<open>data_path\<close>: \<open>None\<close> when it cannot be read or
  is not JSON (the error is logged and raised again), else the list it holds.
\<close>

definition load_products ::
  "env \<Rightarrow> product list option \<Rightarrow> world \<Rightarrow> (ustring \<times> product) list result" where
  "load_products e source w =
     (case source of
        None \<Rightarrow> Raise OSError (emit [Print Msg_load_error] w)
      | Some products \<Rightarrow> (case load_loop e products [] w of (d, w1) \<Rightarrow> Return d w1))"

section \<open>main_async\<close>

text \<open>The loop over \<open>product_ids\<close> (lines 388 to 403).\<close>

fun product_loop ::
  "env \<Rightarrow> (ustring \<times> product) list \<Rightarrow> int \<Rightarrow> ustring \<Rightarrow> ustring list \<Rightarrow> qa_pair list \<Rightarrow> nat \<Rightarrow>
     world \<Rightarrow> qa_pair list result" where
  "product_loop e products num_pairs output_file [] all_qa_pairs total_qa_count w =
     Return all_qa_pairs w"
| "product_loop e products num_pairs output_file (product_id # rest) all_qa_pairs total_qa_count w =
     (case map_of products product_id of
        Some product \<Rightarrow>
          (case process_product e product_id product num_pairs all_qa_pairs output_file
                  total_qa_count w of
             Raise err w' \<Rightarrow> Raise err w'
           | Hang \<Rightarrow> Hang
           | Return (count, all_qa_pairs) w1 \<Rightarrow>
               product_loop e products num_pairs output_file rest all_qa_pairs
                 (total_qa_count + count) w1)
      | None \<Rightarrow>
          product_loop e products num_pairs output_file rest all_qa_pairs total_qa_count
            (emit [Print (Msg_skipped product_id)] w))"

text \<open>\<open>asyncio.Semaphore(value)\<close> raises \<open>ValueError\<close> for a negative value.\<close>

definition main_async ::
  "env \<Rightarrow> product list option \<Rightarrow> ustring list option \<Rightarrow> int \<Rightarrow> ustring \<Rightarrow> int \<Rightarrow> world \<Rightarrow>
     qa_pair list result" where
  "main_async e source product_ids num_pairs output_file concurrency w =
     (if concurrency < 0 then Raise ValueError w
      else
        (let w0 = w\<lparr>semaphore := Some (nat concurrency)\<rparr>
         in case load_products e source w0 of
              Raise err w' \<Rightarrow> Raise err w'
            | Hang \<Rightarrow> Hang
            | Return products w1 \<Rightarrow>
                (let product_ids =
                       (case product_ids of None \<Rightarrow> map fst products | Some ids \<Rightarrow> ids);
                     w2 = SafeSet_clear Focuses w1;
                     w3 = SafeSet_clear Questions w2
                 in product_loop e products num_pairs output_file product_ids [] 0 w3)))"

section \<open>Vocabulary of the properties\<close>

text \<open>
  A question text passes the check of line 223 when it is not empty, longer than two
  characters and not in the registry. A reply of the service is acceptable when it is
  a text that passes the check it is given after \<open>strip\<close>.
\<close>

definition valid_question :: "ustring set \<Rightarrow> ustring \<Rightarrow> bool" where
  "valid_question used q \<longleftrightarrow> q \<noteq> [] \<and> 2 < length q \<and> q \<notin> used"

definition acceptable :: "(ustring \<Rightarrow> bool) \<Rightarrow> reply \<Rightarrow> bool" where
  "acceptable ok r = (case r of Fails \<Rightarrow> False | Content t \<Rightarrow> ok (strip t))"

definition events_since :: "world \<Rightarrow> world \<Rightarrow> event list" where
  "events_since w w' = drop (length (trace w)) (trace w')"

definition is_sem :: "event \<Rightarrow> bool" where
  "is_sem x \<longleftrightarrow> x = Sem_acquire \<or> x = Sem_release"

definition failed_calls :: "env \<Rightarrow> world \<Rightarrow> world \<Rightarrow> nat" where
  "failed_calls e w w' = length (filter (\<lambda>n. service e n = Fails) [calls w..<calls w'])"

definition accepted_at :: "(ustring \<Rightarrow> bool) \<Rightarrow> env \<Rightarrow> world \<Rightarrow> nat \<Rightarrow> ustring \<Rightarrow> bool" where
  "accepted_at ok e w n x \<longleftrightarrow>
     (\<exists>t. service e (calls w + n) = Content t \<and> x = strip t \<and> ok x) \<and>
     (\<forall>m<n. \<not> acceptable ok (service e (calls w + m)))"

definition all_rejected :: "(ustring \<Rightarrow> bool) \<Rightarrow> env \<Rightarrow> world \<Rightarrow> nat \<Rightarrow> bool" where
  "all_rejected ok e w k \<longleftrightarrow> (\<forall>m<k. \<not> acceptable ok (service e (calls w + m)))"

definition sleeps :: "event list \<Rightarrow> nat" where
  "sleeps es = length (filter (\<lambda>x. x = Sleep) es)"

definition attempts_only :: "env \<Rightarrow> world \<Rightarrow> world \<Rightarrow> bool" where
  "attempts_only e w w' \<longleftrightarrow>
     semaphore w' = semaphore w \<and> used_focuses w' = used_focuses w \<and> files w' = files w \<and>
     writes w' = writes w \<and> uuids w' = uuids w \<and> calls w \<le> calls w' \<and>
     (\<exists>es. trace w' = trace w @ es \<and> filter is_sem es = [] \<and>
           (\<forall>n. Print (Msg_default_question n) \<notin> set es) \<and>
           sleeps es = failed_calls e w w')"

section \<open>Example inputs\<close>

text \<open>
  A process in which nothing has happened yet, the same once \<open>main_async\<close> has made
  a semaphore with one slot, and an outside world whose service answers as given,
  whose random numbers are all 0 and whose disk never fails.
\<close>

definition idle_world :: world where
  "idle_world =
     \<lparr>semaphore = None, used_focuses = {}, used_questions = {}, files = Map.empty,
      calls = 0, draws = 0, writes = 0, uuids = 0, trace = []\<rparr>"

definition ready_world :: world where
  "ready_world = idle_world\<lparr>semaphore := Some 1\<rparr>"

definition plain_env :: "(nat \<Rightarrow> reply) \<Rightarrow> env" where
  "plain_env svc = \<lparr>service = svc, random = (\<lambda>n. 0), disk = (\<lambda>n. Io_ok), uuid_hex = (\<lambda>n. [])\<rparr>"

definition out_json :: ustring where
  "out_json = [111, 117, 116]"

definition sample_pair :: qa_pair where
  "sample_pair = \<lparr>pair_id = [65], pair_question = [113, 63, 63], pair_answer = [97]\<rparr>"

definition saved_once :: world where
  "saved_once =
     idle_world\<lparr>writes := 1, files := [out_json \<mapsto> json_dumps [sample_pair]],
                trace := [Print (Msg_saved 1 out_json)]\<rparr>"

definition saved_twice :: world where
  "saved_twice =
     idle_world\<lparr>writes := 2, files := [out_json \<mapsto> json_dumps [sample_pair]],
                trace := [Print (Msg_saved 1 out_json), Print (Msg_saved 1 out_json)]\<rparr>"

definition returned :: "'a result \<Rightarrow> 'a option" where
  "returned r = (case r of Return x w \<Rightarrow> Some x | Raise err w \<Rightarrow> None | Hang \<Rightarrow> None)"

definition final_world :: "'a result \<Rightarrow> world option" where
  "final_world r = (case r of Return x w \<Rightarrow> Some w | Raise err w \<Rightarrow> Some w | Hang \<Rightarrow> None)"

definition empty_then_text :: "nat \<Rightarrow> reply" where
  "empty_then_text n = (if n = 0 then Content [32] else Content [111, 107, 33])"

definition is_lock :: "event \<Rightarrow> bool" where
  "is_lock x = (case x of Lock_acquire r \<Rightarrow> True | Lock_release r \<Rightarrow> True | _ \<Rightarrow> False)"

definition single_section :: "registry \<Rightarrow> event list \<Rightarrow> bool" where
  "single_section r es =
     (case es of
        [] \<Rightarrow> False
      | x # rest \<Rightarrow> x = Lock_acquire r \<and> rest \<noteq> [] \<and> last rest = Lock_release r \<and>
                    filter is_lock (butlast rest) = [])"

text \<open>A number of picks in a row, as a test of the registry would make them.\<close>

fun picks :: "env \<Rightarrow> nat \<Rightarrow> world \<Rightarrow> ustring list \<times> world" where
  "picks e 0 w = ([], w)"
| "picks e (Suc n) w =
     (case pick_focus e w of
        (Inl err, w1) \<Rightarrow> ([], w1)
      | (Inr focus, w1) \<Rightarrow> (case picks e n w1 of (rest, w2) \<Rightarrow> (focus # rest, w2)))"

definition all_fail_then_text :: "nat \<Rightarrow> reply" where
  "all_fail_then_text n = (if n < 3 then Fails else Content [111, 107, 33])"

text \<open>
  The line that reports a default question names the pair by its number. A run of
  generated pairs, numbered from \<open>start\<close>, is fresh when the registry has grown by
  their questions and every pair whose number was not reported has a question that
  was not in the registry before, nor is the question of an earlier pair of the run.
\<close>

definition default_logged :: "nat \<Rightarrow> world \<Rightarrow> world \<Rightarrow> bool" where
  "default_logged n w w' \<longleftrightarrow> Print (Msg_default_question n) \<in> set (events_since w w')"

definition fresh_pairs :: "nat \<Rightarrow> qa_pair list \<Rightarrow> world \<Rightarrow> world \<Rightarrow> bool" where
  "fresh_pairs start ps w w' \<longleftrightarrow>
     semaphore w' = semaphore w \<and>
     used_questions w' = used_questions w \<union> pair_question ` set ps \<and>
     trace w' = trace w @ events_since w w' \<and>
     (\<forall>n. default_logged n w w' \<longrightarrow> start \<le> n \<and> n < start + length ps) \<and>
     (\<forall>j<length ps. \<not> default_logged (start + j) w w' \<longrightarrow>
        pair_question (ps ! j) \<notin> used_questions w \<and>
        (\<forall>i<j. pair_question (ps ! i) \<noteq> pair_question (ps ! j)))"

text \<open>
  The id that \<open>process_product\<close> writes into the pairs of an item (line 342), and
  the ids of the pairs that a run over the requested ids is to produce, in order:
  for each requested id that the catalog has, \<open>num_pairs\<close> times the id written for
  its item; nothing for an id that the catalog does not have.
\<close>

definition record_id :: "ustring \<Rightarrow> product \<Rightarrow> ustring" where
  "record_id product_id product = (case product KEY_id of None \<Rightarrow> product_id | Some i \<Rightarrow> i)"

definition expected_ids :: "(ustring \<times> product) list \<Rightarrow> int \<Rightarrow> ustring list \<Rightarrow> ustring list" where
  "expected_ids products num_pairs product_ids =
     concat (map (\<lambda>product_id.
                    case map_of products product_id of
                      None \<Rightarrow> []
                    | Some product \<Rightarrow> replicate (nat num_pairs) (record_id product_id product))
                 product_ids)"

text \<open>
  What \<open>main_async\<close> has at hand when its loop starts: the catalog that
  \<open>load_products\<close> builds from the parsed items, the ids it goes through (all keys
  of the catalog when none are given), and the world once the semaphore is made, the
  catalog is loaded and both registries are cleared. An item has consistent ids when
  it does not carry two different ids under its two id keys.
\<close>

definition loaded :: "env \<Rightarrow> product list \<Rightarrow> world \<Rightarrow> (ustring \<times> product) list" where
  "loaded e raw w = fst (load_loop e raw [] w)"

definition requested :: "ustring list option \<Rightarrow> (ustring \<times> product) list \<Rightarrow> ustring list" where
  "requested product_ids products =
     (case product_ids of None \<Rightarrow> map fst products | Some ids \<Rightarrow> ids)"

definition started :: "env \<Rightarrow> product list \<Rightarrow> int \<Rightarrow> world \<Rightarrow> world" where
  "started e raw concurrency w =
     SafeSet_clear Questions (SafeSet_clear Focuses
       (snd (load_loop e raw [] (w\<lparr>semaphore := Some (nat concurrency)\<rparr>))))"

definition consistent_ids :: "product \<Rightarrow> bool" where
  "consistent_ids product \<longleftrightarrow>
     \<not> (truthy (product KEY_cn_id) \<and> product KEY_id \<noteq> None \<and> product KEY_id \<noteq> product KEY_cn_id)"

text \<open>Small catalogs, and an outside world whose disk refuses every write.\<close>

definition three_items :: "product list" where
  "three_items = [[KEY_id \<mapsto> [65]], [KEY_id \<mapsto> [66]], [KEY_id \<mapsto> [67]]]"

definition relabelled_item :: product where
  "relabelled_item = [KEY_cn_id \<mapsto> [65], KEY_id \<mapsto> [66]]"

definition one_item :: product where
  "one_item = [KEY_id \<mapsto> [65]]"

definition failing_disk :: env where
  "failing_disk = (plain_env empty_then_text)\<lparr>disk := (\<lambda>n. Open_fails)\<rparr>"

section \<open>The attempts of one request\<close>

lemmas prim_defs = emit_def sem_exit_def SafeSet_add_def SafeSet_contains_def SafeSet_clear_def
  SafeSet_get_copy_def data_def set_data_def choice_def invoke_def question_except_def

lemma CONSTRAINTS_nonempty: "CONSTRAINTS \<noteq> []"
  by (simp add: CONSTRAINTS_def)

lemma attempts_only_refl: "attempts_only e w w"
  by (simp add: attempts_only_def sleeps_def failed_calls_def)

lemma failed_calls_trans:
  "calls w \<le> calls w1 \<Longrightarrow> calls w1 \<le> calls w2 \<Longrightarrow>
   failed_calls e w w2 = failed_calls e w w1 + failed_calls e w1 w2"
proof -
  assume a: "calls w \<le> calls w1" "calls w1 \<le> calls w2"
  then have "[calls w..<calls w2] = [calls w..<calls w1] @ [calls w1..<calls w2]"
    by (metis le_Suc_ex upt_add_eq_append)
  then show ?thesis by (simp add: failed_calls_def)
qed

lemma attempts_only_trans:
  assumes "attempts_only e w w1" and "attempts_only e w1 w2"
  shows "attempts_only e w w2"
proof -
  from assms(1) obtain es1 where 1: "trace w1 = trace w @ es1" "filter is_sem es1 = []"
    "\<forall>n. Print (Msg_default_question n) \<notin> set es1" "sleeps es1 = failed_calls e w w1"
    "calls w \<le> calls w1"
    by (auto simp: attempts_only_def)
  from assms(2) obtain es2 where 2: "trace w2 = trace w1 @ es2" "filter is_sem es2 = []"
    "\<forall>n. Print (Msg_default_question n) \<notin> set es2" "sleeps es2 = failed_calls e w1 w2"
    "calls w1 \<le> calls w2"
    by (auto simp: attempts_only_def)
  have "trace w2 = trace w @ (es1 @ es2)" "filter is_sem (es1 @ es2) = []"
    "\<forall>n. Print (Msg_default_question n) \<notin> set (es1 @ es2)"
    "sleeps (es1 @ es2) = failed_calls e w w2"
    using 1 2 by (auto simp: sleeps_def failed_calls_trans[OF 1(5) 2(5)])
  moreover have "semaphore w2 = semaphore w" "used_focuses w2 = used_focuses w" "files w2 = files w"
    "writes w2 = writes w" "uuids w2 = uuids w" "calls w \<le> calls w2"
    using assms by (auto simp: attempts_only_def)
  ultimately show ?thesis unfolding attempts_only_def by blast
qed

lemma question_loop_reject:
  assumes "\<not> acceptable (valid_question (used_questions w)) (service e (calls w))"
  shows "\<exists>w1. question_loop e info focus qa_id (a # as) w = question_loop e info focus qa_id as w1 \<and>
           calls w1 = calls w + 1 \<and> used_questions w1 = used_questions w \<and> attempts_only e w w1"
  using assms
  by (cases "service e (calls w)")
     (auto simp: prim_defs CONSTRAINTS_nonempty Let_def acceptable_def valid_question_def
        attempts_only_def is_sem_def sleeps_def failed_calls_def)

lemma question_loop_accept:
  assumes "acceptable (valid_question (used_questions w)) (service e (calls w))"
  shows "\<exists>w' t. question_loop e info focus qa_id (a # as) w = (Some (strip t), w') \<and>
           service e (calls w) = Content t \<and>
           calls w' = calls w + 1 \<and> used_questions w' = insert (strip t) (used_questions w) \<and>
           attempts_only e w w'"
  using assms
  by (cases "service e (calls w)")
     (auto simp: prim_defs CONSTRAINTS_nonempty Let_def acceptable_def valid_question_def
        attempts_only_def is_sem_def sleeps_def failed_calls_def)


lemma question_loop_attempts: "question_loop e info focus qa_id as w = (r, w') \<Longrightarrow> attempts_only e w w'"
proof (induction as arbitrary: w)
  case Nil
  then show ?case by (simp add: attempts_only_refl)
next
  case (Cons a as)
  show ?case
  proof (cases "acceptable (valid_question (used_questions w)) (service e (calls w))")
    case True
    from question_loop_accept[OF True, of info focus qa_id a as] Cons.prems show ?thesis by auto
  next
    case False
    from question_loop_reject[OF False, of info focus qa_id a as] obtain w1 where
      "question_loop e info focus qa_id as w1 = (r, w')" "attempts_only e w w1"
      using Cons.prems by auto
    then show ?thesis using Cons.IH attempts_only_trans by blast
  qed
qed

lemma question_loop_None:
  "question_loop e info focus qa_id as w = (None, w') \<Longrightarrow>
     used_questions w' = used_questions w \<and> calls w' = calls w + length as \<and>
     (\<forall>m<length as. \<not> acceptable (valid_question (used_questions w)) (service e (calls w + m)))"
proof (induction as arbitrary: w)
  case Nil
  then show ?case by simp
next
  case (Cons a as)
  have rej: "\<not> acceptable (valid_question (used_questions w)) (service e (calls w))"
  proof
    assume "acceptable (valid_question (used_questions w)) (service e (calls w))"
    from question_loop_accept[OF this, of info focus qa_id a as] Cons.prems show False by auto
  qed
  from question_loop_reject[OF rej, of info focus qa_id a as] obtain w1 where
    step: "question_loop e info focus qa_id as w1 = (None, w')"
    and w1: "calls w1 = calls w + 1" "used_questions w1 = used_questions w"
    using Cons.prems by auto
  from Cons.IH[OF step] have ih: "used_questions w' = used_questions w"
    "calls w' = calls w + length (a # as)"
    "\<forall>m<length as. \<not> acceptable (valid_question (used_questions w)) (service e (calls w + (m + 1)))"
    by (auto simp: w1)
  have "\<forall>m<length (a # as). \<not> acceptable (valid_question (used_questions w)) (service e (calls w + m))"
    using rej ih(3) by (auto simp: less_Suc_eq_0_disj)
  with ih show ?case by blast
qed

lemma question_loop_Some:
  "question_loop e info focus qa_id as w = (Some q, w') \<Longrightarrow>
     used_questions w' = insert q (used_questions w) \<and> valid_question (used_questions w) q \<and>
     (\<exists>n<length as. \<exists>t. service e (calls w + n) = Content t \<and> q = strip t \<and>
        calls w' = calls w + n + 1 \<and>
        (\<forall>m<n. \<not> acceptable (valid_question (used_questions w)) (service e (calls w + m))))"
proof (induction as arbitrary: w)
  case Nil
  then show ?case by simp
next
  case (Cons a as)
  show ?case
  proof (cases "acceptable (valid_question (used_questions w)) (service e (calls w))")
    case True
    from question_loop_accept[OF True, of info focus qa_id a as] obtain t where
      t: "q = strip t" "service e (calls w) = Content t" "calls w' = calls w + 1"
         "used_questions w' = insert q (used_questions w)"
      using Cons.prems by auto
    with True have "valid_question (used_questions w) q" by (simp add: acceptable_def)
    with t show ?thesis by (intro conjI exI[of _ 0] exI[of _ t]) auto
  next
    case False
    from question_loop_reject[OF False, of info focus qa_id a as] obtain w1 where
      step: "question_loop e info focus qa_id as w1 = (Some q, w')"
      and c1: "calls w1 = calls w + 1" and u1: "used_questions w1 = used_questions w"
      using Cons.prems by auto
    from Cons.IH[OF step] obtain n t where
      a: "used_questions w' = insert q (used_questions w)" "valid_question (used_questions w) q"
      and n: "n < length as" "service e (calls w + (n + 1)) = Content t" "q = strip t"
         "calls w' = calls w + (n + 1) + 1"
      and m: "\<forall>m<n. \<not> acceptable (valid_question (used_questions w)) (service e (calls w + (m + 1)))"
      by (auto simp: c1 u1)
    have "\<forall>m<n + 1. \<not> acceptable (valid_question (used_questions w)) (service e (calls w + m))"
      using m False by (auto simp: less_Suc_eq_0_disj)
    with a n show ?thesis
      by (intro conjI exI[of _ "n + 1"] exI[of _ t]) auto
  qed
qed

text \<open>The answer loop.\<close>

lemma answer_loop_attempts: "answer_loop e info q qa_id as w = (r, w') \<Longrightarrow> attempts_only e w w'"
proof (induction as arbitrary: w)
  case Nil
  then show ?case by (simp add: attempts_only_refl)
next
  case (Cons a as)
  show ?case
  proof (cases "service e (calls w)")
    case Fails
    then obtain w1 where "answer_loop e info q qa_id as w1 = (r, w')" "attempts_only e w w1"
      using Cons.prems
      by (auto simp: prim_defs attempts_only_def is_sem_def sleeps_def failed_calls_def)
    then show ?thesis using Cons.IH attempts_only_trans by blast
  next
    case (Content t)
    then show ?thesis using Cons.prems
      by (auto simp: prim_defs attempts_only_def is_sem_def sleeps_def failed_calls_def)
  qed
qed

lemma answer_loop_None:
  "answer_loop e info q qa_id as w = (None, w') \<Longrightarrow>
     calls w' = calls w + length as \<and> (\<forall>m<length as. service e (calls w + m) = Fails)"
proof (induction as arbitrary: w)
  case Nil
  then show ?case by simp
next
  case (Cons a as)
  then obtain w1 where f: "service e (calls w) = Fails"
    and step: "answer_loop e info q qa_id as w1 = (None, w')" and c1: "calls w1 = calls w + 1"
    by (auto simp: prim_defs split: reply.splits)
  from Cons.IH[OF step] f show ?case
    by (auto simp: c1 less_Suc_eq_0_disj)
qed

lemma answer_loop_Some:
  "answer_loop e info q qa_id as w = (Some a, w') \<Longrightarrow>
     (\<exists>n<length as. \<exists>t. service e (calls w + n) = Content t \<and> a = strip t \<and>
        calls w' = calls w + n + 1 \<and> (\<forall>m<n. service e (calls w + m) = Fails))"
proof (induction as arbitrary: w)
  case Nil
  then show ?case by simp
next
  case (Cons x as)
  show ?case
  proof (cases "service e (calls w)")
    case Fails
    then obtain w1 where step: "answer_loop e info q qa_id as w1 = (Some a, w')"
      and c1: "calls w1 = calls w + 1"
      using Cons.prems by (auto simp: prim_defs)
    from Cons.IH[OF step] obtain n t where n: "n < length as"
      "service e (calls w + (n + 1)) = Content t" "a = strip t" "calls w' = calls w + (n + 1) + 1"
      "\<forall>m<n. service e (calls w + (m + 1)) = Fails"
      by (auto simp: c1)
    have "\<forall>m<n + 1. service e (calls w + m) = Fails"
      using n(5) Fails by (auto simp: less_Suc_eq_0_disj)
    with n show ?thesis by (intro exI[of _ "n + 1"] conjI exI[of _ t]) auto
  next
    case (Content t)
    with Cons.prems show ?thesis
      by (intro exI[of _ 0] conjI exI[of _ t]) (auto simp: prim_defs)
  qed
qed


lemma FOCUS_POINTS_nonempty: "FOCUS_POINTS \<noteq> []"
  by (simp add: FOCUS_POINTS_def)

lemma pick_focus_frame:
  "pick_focus e w = (r, w') \<Longrightarrow>
     semaphore w' = semaphore w \<and> used_questions w' = used_questions w \<and> files w' = files w \<and>
     calls w' = calls w \<and> writes w' = writes w \<and> uuids w' = uuids w"
  by (auto simp: pick_focus_def prim_defs Let_def FOCUS_POINTS_nonempty split: if_splits)

lemma pick_focus_unused:
  assumes "filter (\<lambda>f. f \<notin> used_focuses w) FOCUS_POINTS \<noteq> []"
  shows "\<exists>focus w'. pick_focus e w = (Inr focus, w') \<and>
           focus = filter (\<lambda>f. f \<notin> used_focuses w) FOCUS_POINTS !
                     (random e (draws w) mod length (filter (\<lambda>f. f \<notin> used_focuses w) FOCUS_POINTS)) \<and>
           used_focuses w' = insert focus (used_focuses w) \<and> draws w' = draws w + 1 \<and>
           trace w' = trace w @ [Lock_acquire Focuses, Lock_release Focuses,
                                 Lock_acquire Focuses, Lock_release Focuses]"
  using assms by (simp add: pick_focus_def prim_defs Let_def)

lemma pick_focus_exhausted:
  assumes "filter (\<lambda>f. f \<notin> used_focuses w) FOCUS_POINTS = []"
  shows "\<exists>focus w'. pick_focus e w = (Inr focus, w') \<and>
           focus = FOCUS_POINTS ! (random e (draws w) mod length FOCUS_POINTS) \<and>
           used_focuses w' = {focus} \<and> draws w' = draws w + 1 \<and>
           trace w' = trace w @ [Lock_acquire Focuses, Lock_release Focuses,
                                 Lock_acquire Focuses, Lock_release Focuses,
                                 Lock_acquire Focuses, Lock_release Focuses]"
  using assms by (simp add: pick_focus_def prim_defs Let_def FOCUS_POINTS_nonempty)

lemma nth_mod_in_set: "xs \<noteq> [] \<Longrightarrow> xs ! (r mod length xs) \<in> set xs"
  by simp

lemma pick_focus_returns:
  "\<exists>focus w' es. pick_focus e w = (Inr focus, w') \<and> focus \<in> set FOCUS_POINTS \<and>
      trace w' = trace w @ es \<and> filter is_sem es = [] \<and> sleeps es = 0 \<and>
      (\<forall>n. Print (Msg_default_question n) \<notin> set es)"
proof (cases "filter (\<lambda>f. f \<notin> used_focuses w) FOCUS_POINTS = []")
  case True
  from pick_focus_exhausted[OF True, of e] show ?thesis
    using nth_mod_in_set[OF FOCUS_POINTS_nonempty]
    by (auto simp: is_sem_def sleeps_def)
next
  case False
  let ?av = "filter (\<lambda>f. f \<notin> used_focuses w) FOCUS_POINTS"
  have "?av ! (random e (draws w) mod length ?av) \<in> set ?av"
    using False by (rule nth_mod_in_set)
  then have "?av ! (random e (draws w) mod length ?av) \<in> set FOCUS_POINTS" by simp
  with pick_focus_unused[OF False, of e] show ?thesis
    by (auto simp: is_sem_def sleeps_def)
qed


declare question_loop.simps [simp del] answer_loop.simps [simp del]

lemma sem_enter_free:
  "semaphore w = Some (Suc k) \<Longrightarrow>
   sem_enter w = Return () (emit [Sem_acquire] (w\<lparr>semaphore := Some k\<rparr>))"
  by (simp add: sem_enter_def)

lemma generate_question_summary:
  assumes free: "semaphore w = Some (Suc k)"
  shows "\<exists>q w' focus es.
           generate_question e info name qa_id w = Return q w' \<and> focus \<in> set FOCUS_POINTS \<and>
           semaphore w' = semaphore w \<and> files w' = files w \<and> writes w' = writes w \<and>
           uuids w' = uuids w \<and> used_questions w' = insert q (used_questions w) \<and>
           trace w' = trace w @ Sem_acquire # es @ [Sem_release] \<and> filter is_sem es = [] \<and>
           sleeps es = failed_calls e w w' \<and>
           ((\<exists>n<3. accepted_at (valid_question (used_questions w)) e w n q \<and>
                   calls w' = calls w + n + 1 \<and>
                   (\<forall>j. Print (Msg_default_question j) \<notin> set es))
            \<or> (all_rejected (valid_question (used_questions w)) e w 3 \<and>
                q = default_question name focus \<and> calls w' = calls w + 3 \<and>
                (\<forall>j. Print (Msg_default_question j) \<in> set es \<longleftrightarrow> j = qa_id)))"
proof -
  define w0 where "w0 = emit [Sem_acquire] (w\<lparr>semaphore := Some k\<rparr>)"
  have enter: "sem_enter w = Return () w0"
    using free by (simp add: sem_enter_free w0_def)
  have w0: "semaphore w0 = Some k" "files w0 = files w" "writes w0 = writes w" "uuids w0 = uuids w"
    "used_questions w0 = used_questions w" "calls w0 = calls w" "trace w0 = trace w @ [Sem_acquire]"
    by (simp_all add: w0_def emit_def)
  from pick_focus_returns[of e w0] obtain focus w1 es1 where
    pick: "pick_focus e w0 = (Inr focus, w1)" and focus: "focus \<in> set FOCUS_POINTS"
    and es1: "trace w1 = trace w0 @ es1" "filter is_sem es1 = []" "sleeps es1 = 0"
      "\<forall>n. Print (Msg_default_question n) \<notin> set es1"
    by blast
  from pick_focus_frame[OF pick] have w1: "semaphore w1 = Some k" "files w1 = files w"
    "writes w1 = writes w" "uuids w1 = uuids w" "used_questions w1 = used_questions w"
    "calls w1 = calls w"
    by (simp_all add: w0)
  obtain r w2 where loop: "question_loop e info focus qa_id [0, 1, 2] w1 = (r, w2)"
    by (cases "question_loop e info focus qa_id [0, 1, 2] w1") blast
  from question_loop_attempts[OF loop] obtain es2 where
    w2: "semaphore w2 = Some k" "files w2 = files w" "writes w2 = writes w" "uuids w2 = uuids w"
    and es2: "trace w2 = trace w1 @ es2" "filter is_sem es2 = []"
      "\<forall>n. Print (Msg_default_question n) \<notin> set es2" "sleeps es2 = failed_calls e w1 w2"
    by (auto simp: attempts_only_def w1)
  have fc: "failed_calls e w1 w2 = failed_calls e w w2"
    by (simp add: failed_calls_def w1)
  show ?thesis
  proof (cases r)
    case (Some q)
    define w' where "w' = sem_exit w2"
    have res: "generate_question e info name qa_id w = Return q w'"
      by (simp add: generate_question_def enter pick loop Some w'_def del: One_nat_def)
    have "used_questions w2 = insert q (used_questions w) \<and>
          (\<exists>n<3. accepted_at (valid_question (used_questions w)) e w n q \<and>
                  calls w2 = calls w + n + 1)"
      using question_loop_Some[OF loop[unfolded Some]]
      unfolding accepted_at_def w1 by fastforce
    then obtain n where
      q: "used_questions w2 = insert q (used_questions w)" "n < 3"
         "accepted_at (valid_question (used_questions w)) e w n q" "calls w2 = calls w + n + 1"
      by blast
    have "trace w' = trace w @ Sem_acquire # (es1 @ es2) @ [Sem_release]"
      "filter is_sem (es1 @ es2) = []" "sleeps (es1 @ es2) = failed_calls e w w'"
      "\<forall>j. Print (Msg_default_question j) \<notin> set (es1 @ es2)"
      "semaphore w' = semaphore w" "files w' = files w" "writes w' = writes w" "uuids w' = uuids w"
      "used_questions w' = insert q (used_questions w)" "calls w' = calls w + n + 1"
      using es1 es2 w2 q fc
      by (simp_all add: w'_def sem_exit_def emit_def w0 free sleeps_def failed_calls_def)
    with res focus q show ?thesis by blast
  next
    case None
    define dq where "dq = default_question name focus"
    define w' where "w' = sem_exit (emit [Print (Msg_default_question qa_id)] (SafeSet_add Questions dq w2))"
    define es3 where "es3 = [Lock_acquire Questions, Lock_release Questions, Print (Msg_default_question qa_id)]"
    have res: "generate_question e info name qa_id w = Return dq w'"
      by (simp add: generate_question_def enter pick loop None w'_def dq_def Let_def del: One_nat_def)
    from question_loop_None[OF loop[unfolded None]] have
      q: "used_questions w2 = used_questions w" "calls w2 = calls w + 3"
         "all_rejected (valid_question (used_questions w)) e w 3"
      by (auto simp: all_rejected_def w1)
    have "trace w' = trace w @ Sem_acquire # (es1 @ es2 @ es3) @ [Sem_release]"
      "filter is_sem (es1 @ es2 @ es3) = []" "sleeps (es1 @ es2 @ es3) = failed_calls e w w'"
      "\<forall>j. Print (Msg_default_question j) \<in> set (es1 @ es2 @ es3) \<longleftrightarrow> j = qa_id"
      "semaphore w' = semaphore w" "files w' = files w" "writes w' = writes w" "uuids w' = uuids w"
      "used_questions w' = insert dq (used_questions w)" "calls w' = calls w + 3"
      using es1 es2 w2 q fc
      by (auto simp: w'_def es3_def prim_defs w0 free sleeps_def failed_calls_def is_sem_def)
    with res focus q(3) show ?thesis unfolding dq_def by blast
  qed
qed


lemma answer_loop_questions:
  "answer_loop e info q qa_id as w = (r, w') \<Longrightarrow> used_questions w' = used_questions w"
  by (induction as arbitrary: w)
     (auto simp: answer_loop.simps prim_defs split: reply.splits)

lemma generate_answer_summary:
  assumes free: "semaphore w = Some (Suc k)"
  shows "\<exists>a w' es.
           generate_answer e info q qa_id w = Return a w' \<and>
           semaphore w' = semaphore w \<and> files w' = files w \<and> writes w' = writes w \<and>
           uuids w' = uuids w \<and> used_questions w' = used_questions w \<and>
           trace w' = trace w @ Sem_acquire # es @ [Sem_release] \<and> filter is_sem es = [] \<and>
           (\<forall>j. Print (Msg_default_question j) \<notin> set es) \<and>
           sleeps es = failed_calls e w w' \<and>
           ((\<exists>n<3. accepted_at (\<lambda>_. True) e w n a \<and> calls w' = calls w + n + 1)
            \<or> (all_rejected (\<lambda>_. True) e w 3 \<and> a = DEFAULT_ANSWER \<and> calls w' = calls w + 3))"
proof -
  define w0 where "w0 = emit [Sem_acquire] (w\<lparr>semaphore := Some k\<rparr>)"
  have enter: "sem_enter w = Return () w0"
    using free by (simp add: sem_enter_free w0_def)
  have w0: "semaphore w0 = Some k" "files w0 = files w" "writes w0 = writes w" "uuids w0 = uuids w"
    "used_questions w0 = used_questions w" "calls w0 = calls w" "trace w0 = trace w @ [Sem_acquire]"
    by (simp_all add: w0_def emit_def)
  obtain r w1 where loop: "answer_loop e info q qa_id [0, 1, 2] w0 = (r, w1)"
    by (cases "answer_loop e info q qa_id [0, 1, 2] w0") blast
  from answer_loop_attempts[OF loop] obtain es where
    w1: "semaphore w1 = Some k" "files w1 = files w" "writes w1 = writes w" "uuids w1 = uuids w"
    and es: "trace w1 = trace w0 @ es" "filter is_sem es = []"
      "\<forall>n. Print (Msg_default_question n) \<notin> set es" "sleeps es = failed_calls e w0 w1"
    by (auto simp: attempts_only_def w0)
  have uq: "used_questions w1 = used_questions w"
    using answer_loop_questions[OF loop] by (simp add: w0)
  have fc: "failed_calls e w0 w1 = failed_calls e w w1"
    by (simp add: failed_calls_def w0)
  show ?thesis
  proof (cases r)
    case (Some a)
    define w' where "w' = sem_exit w1"
    have res: "generate_answer e info q qa_id w = Return a w'"
      by (simp add: generate_answer_def enter loop Some w'_def del: One_nat_def)
    have "\<exists>n<3. accepted_at (\<lambda>_. True) e w n a \<and> calls w1 = calls w + n + 1"
      using answer_loop_Some[OF loop[unfolded Some]]
      unfolding accepted_at_def acceptable_def w0 by (fastforce split: reply.splits)
    then obtain n where n: "n < 3" "accepted_at (\<lambda>_. True) e w n a" "calls w1 = calls w + n + 1"
      by blast
    have "trace w' = trace w @ Sem_acquire # es @ [Sem_release]"
      "sleeps es = failed_calls e w w'"
      "semaphore w' = semaphore w" "files w' = files w" "writes w' = writes w" "uuids w' = uuids w"
      "used_questions w' = used_questions w" "calls w' = calls w + n + 1"
      using es w1 uq n fc
      by (simp_all add: w'_def sem_exit_def emit_def w0 free failed_calls_def)
    with res n es(2,3) show ?thesis by blast
  next
    case None
    define w' where "w' = sem_exit (emit [Print (Msg_default_answer qa_id)] w1)"
    have res: "generate_answer e info q qa_id w = Return DEFAULT_ANSWER w'"
      by (simp add: generate_answer_def enter loop None w'_def del: One_nat_def)
    have rej: "all_rejected (\<lambda>_. True) e w 3" and c: "calls w1 = calls w + 3"
      using answer_loop_None[OF loop[unfolded None]]
      by (auto simp: all_rejected_def acceptable_def w0)
    have "trace w' = trace w @ Sem_acquire # (es @ [Print (Msg_default_answer qa_id)]) @ [Sem_release]"
      "filter is_sem (es @ [Print (Msg_default_answer qa_id)]) = []"
      "\<forall>j. Print (Msg_default_question j) \<notin> set (es @ [Print (Msg_default_answer qa_id)])"
      "sleeps (es @ [Print (Msg_default_answer qa_id)]) = failed_calls e w w'"
      "semaphore w' = semaphore w" "files w' = files w" "writes w' = writes w" "uuids w' = uuids w"
      "used_questions w' = used_questions w" "calls w' = calls w + 3"
      using es w1 uq c fc
      by (simp_all add: w'_def sem_exit_def emit_def w0 free failed_calls_def sleeps_def is_sem_def)
    with res rej show ?thesis by blast
  qed
qed

section \<open>The checkpoint\<close>

lemma save_qa_pairs_Return:
  "save_qa_pairs e qa_pairs output_file w = Return u w' \<Longrightarrow>
     disk e (writes w) = Io_ok \<and>
     files w' = (files w)(output_file \<mapsto> json_dumps qa_pairs) \<and>
     writes w' = writes w + 1 \<and> semaphore w' = semaphore w \<and> calls w' = calls w \<and>
     used_questions w' = used_questions w \<and> used_focuses w' = used_focuses w \<and>
     trace w' = trace w @ [Print (Msg_saved (length qa_pairs) output_file)]"
  by (auto simp: save_qa_pairs_def emit_def Let_def split: io_outcome.splits)

text \<open>
  C9. Writing the same list of pairs a second time leaves every file as the first
  write left it, and what the output file holds is the serialisation of the list,
  whatever the file held before and whatever else the world is.
\<close>

theorem save_qa_pairs_idempotent:
  assumes "save_qa_pairs e qa_pairs output_file w = Return u w1"
    and "save_qa_pairs e' qa_pairs output_file w1 = Return u' w2"
  shows "files w1 output_file = Some (json_dumps qa_pairs) \<and> files w2 = files w1"
proof -
  from save_qa_pairs_Return[OF assms(1)]
  have 1: "files w1 = (files w)(output_file \<mapsto> json_dumps qa_pairs)" by simp
  from save_qa_pairs_Return[OF assms(2)]
  have 2: "files w2 = (files w1)(output_file \<mapsto> json_dumps qa_pairs)" by simp
  from 1 2 show ?thesis by simp
qed

theorem save_qa_pairs_idempotent_witness:
  "save_qa_pairs (plain_env (\<lambda>n. Fails)) [sample_pair] out_json idle_world = Return () saved_once \<and>
   save_qa_pairs (plain_env (\<lambda>n. Fails)) [sample_pair] out_json saved_once = Return () saved_twice \<and>
   files saved_once out_json = Some (json_dumps [sample_pair]) \<and>
   files saved_twice = files saved_once"
proof -
  have 1: "save_qa_pairs (plain_env (\<lambda>n. Fails)) [sample_pair] out_json idle_world = Return () saved_once"
    by (simp add: save_qa_pairs_def plain_env_def idle_world_def saved_once_def emit_def)
  have 2: "save_qa_pairs (plain_env (\<lambda>n. Fails)) [sample_pair] out_json saved_once = Return () saved_twice"
    by (simp add: save_qa_pairs_def plain_env_def idle_world_def saved_once_def saved_twice_def emit_def)
  from save_qa_pairs_idempotent[OF 1 2] 1 2 show ?thesis by simp
qed

section \<open>Retry and fallback\<close>

lemmas eval_defs = generate_question_def generate_answer_def sem_enter_def sem_exit_def emit_def
  pick_focus_def SafeSet_add_def SafeSet_contains_def SafeSet_clear_def SafeSet_get_copy_def
  data_def set_data_def choice_def invoke_def question_except_def question_loop.simps
  answer_loop.simps strip_def isspace_def default_question_def split_head_def
  ready_world_def idle_world_def plain_env_def returned_def final_world_def Let_def

lemma events_since_append: "trace w' = trace w @ es \<Longrightarrow> events_since w w' = es"
  by (simp add: events_since_def)

lemma sleeps_bracket: "sleeps (Sem_acquire # es @ [Sem_release]) = sleeps es"
  by (simp add: sleeps_def)

lemma generate_question_free:
  "generate_question e info name qa_id w = Return q w' \<Longrightarrow> \<exists>k. semaphore w = Some (Suc k)"
  by (auto simp: generate_question_def sem_enter_def split: option.splits nat.splits)

lemma generate_answer_free:
  "generate_answer e info q qa_id w = Return a w' \<Longrightarrow> \<exists>k. semaphore w = Some (Suc k)"
  by (auto simp: generate_answer_def sem_enter_def split: option.splits nat.splits)

text \<open>
  C2, as the code has it. A request that holds a slot of the semaphore always
  returns. A question request makes one to three calls: the first reply that is a text
  which, stripped, is not empty, is longer than two characters and is not in the
  registry is returned; when none of three replies is such a text, the question is the
  template over the item's name and the category of the focus. An answer request makes
  one to three calls and returns the first reply that is a text, whatever the text is;
  when the three calls fail, it returns the fixed phrase. The one second of sleep
  follows each failed call and nothing else, so the number of sleeps is the number of
  failed calls among those made.
\<close>

theorem generate_retry_then_fallback:
  assumes "semaphore w = Some (Suc k)"
  shows "(\<exists>q w'. generate_question e product_info product_name qa_id w = Return q w' \<and>
            sleeps (events_since w w') = failed_calls e w w' \<and>
            ((\<exists>n<3. accepted_at (valid_question (used_questions w)) e w n q \<and>
                    calls w' = calls w + n + 1) \<or>
             (all_rejected (valid_question (used_questions w)) e w 3 \<and> calls w' = calls w + 3 \<and>
              q \<in> default_question product_name ` set FOCUS_POINTS))) \<and>
         (\<exists>a w'. generate_answer e product_info question qa_id w = Return a w' \<and>
            sleeps (events_since w w') = failed_calls e w w' \<and>
            ((\<exists>n<3. accepted_at (\<lambda>_. True) e w n a \<and> calls w' = calls w + n + 1) \<or>
             (all_rejected (\<lambda>_. True) e w 3 \<and> calls w' = calls w + 3 \<and> a = DEFAULT_ANSWER)))"
proof (rule conjI)
  from generate_question_summary[OF assms, of e product_info product_name qa_id]
  obtain q w' focus es where
    r: "generate_question e product_info product_name qa_id w = Return q w'"
    and f: "focus \<in> set FOCUS_POINTS"
    and t: "trace w' = trace w @ Sem_acquire # es @ [Sem_release]" "sleeps es = failed_calls e w w'"
    and c: "(\<exists>n<3. accepted_at (valid_question (used_questions w)) e w n q \<and> calls w' = calls w + n + 1 \<and>
                   (\<forall>j. Print (Msg_default_question j) \<notin> set es))
            \<or> (all_rejected (valid_question (used_questions w)) e w 3 \<and>
                q = default_question product_name focus \<and> calls w' = calls w + 3 \<and>
                (\<forall>j. Print (Msg_default_question j) \<in> set es \<longleftrightarrow> j = qa_id))"
    by blast
  have "sleeps (events_since w w') = failed_calls e w w'"
    using t by (simp add: events_since_append sleeps_bracket)
  moreover have "(\<exists>n<3. accepted_at (valid_question (used_questions w)) e w n q \<and>
                    calls w' = calls w + n + 1) \<or>
             (all_rejected (valid_question (used_questions w)) e w 3 \<and> calls w' = calls w + 3 \<and>
              q \<in> default_question product_name ` set FOCUS_POINTS)"
    using c f by blast
  ultimately show "\<exists>q w'. generate_question e product_info product_name qa_id w = Return q w' \<and>
            sleeps (events_since w w') = failed_calls e w w' \<and>
            ((\<exists>n<3. accepted_at (valid_question (used_questions w)) e w n q \<and>
                    calls w' = calls w + n + 1) \<or>
             (all_rejected (valid_question (used_questions w)) e w 3 \<and> calls w' = calls w + 3 \<and>
              q \<in> default_question product_name ` set FOCUS_POINTS))"
    using r by blast
next
  from generate_answer_summary[OF assms, of e product_info question qa_id]
  obtain a w' es where
    r: "generate_answer e product_info question qa_id w = Return a w'"
    and t: "trace w' = trace w @ Sem_acquire # es @ [Sem_release]" "sleeps es = failed_calls e w w'"
    and c: "(\<exists>n<3. accepted_at (\<lambda>_. True) e w n a \<and> calls w' = calls w + n + 1)
            \<or> (all_rejected (\<lambda>_. True) e w 3 \<and> a = DEFAULT_ANSWER \<and> calls w' = calls w + 3)"
    by blast
  have "sleeps (events_since w w') = failed_calls e w w'"
    using t by (simp add: events_since_append sleeps_bracket)
  with r c show "\<exists>a w'. generate_answer e product_info question qa_id w = Return a w' \<and>
            sleeps (events_since w w') = failed_calls e w w' \<and>
            ((\<exists>n<3. accepted_at (\<lambda>_. True) e w n a \<and> calls w' = calls w + n + 1) \<or>
             (all_rejected (\<lambda>_. True) e w 3 \<and> calls w' = calls w + 3 \<and> a = DEFAULT_ANSWER))"
    by blast
qed

theorem generate_retry_then_fallback_witness:
  "semaphore ready_world = Some (Suc 0) \<and>
   (\<exists>q w'. generate_question (plain_env empty_then_text) [] [88] 0 ready_world = Return q w' \<and>
            sleeps (events_since ready_world w') = failed_calls (plain_env empty_then_text) ready_world w' \<and>
            ((\<exists>n<3. accepted_at (valid_question (used_questions ready_world)) (plain_env empty_then_text) ready_world n q \<and>
                    calls w' = calls ready_world + n + 1) \<or>
             (all_rejected (valid_question (used_questions ready_world)) (plain_env empty_then_text) ready_world 3 \<and>
              calls w' = calls ready_world + 3 \<and>
              q \<in> default_question [88] ` set FOCUS_POINTS))) \<and>
   (\<exists>a w'. generate_answer (plain_env empty_then_text) [] [113, 63, 63] 0 ready_world = Return a w' \<and>
            sleeps (events_since ready_world w') = failed_calls (plain_env empty_then_text) ready_world w' \<and>
            ((\<exists>n<3. accepted_at (\<lambda>_. True) (plain_env empty_then_text) ready_world n a \<and>
                    calls w' = calls ready_world + n + 1) \<or>
             (all_rejected (\<lambda>_. True) (plain_env empty_then_text) ready_world 3 \<and>
              calls w' = calls ready_world + 3 \<and> a = DEFAULT_ANSWER)))"
proof -
  have h: "semaphore ready_world = Some (Suc 0)"
    by (simp add: ready_world_def idle_world_def)
  from generate_retry_then_fallback[OF h, of "plain_env empty_then_text" "[]" "[88]" 0 "[113, 63, 63]"] h
  show ?thesis by blast
qed

text \<open>
  C2 as stated fails on the code: with a service whose first reply is blank and whose
  later replies are a good text, the answer returned is the empty text after a single
  call (an answer is never checked), and the question is retried at once, with no
  sleep between the rejected attempt and the next.
\<close>

theorem answer_not_validated_counterexample:
  "returned (generate_answer (plain_env empty_then_text) [] [113, 63, 63] 0 ready_world) = Some [] \<and>
   map_option calls (final_world (generate_answer (plain_env empty_then_text) [] [113, 63, 63] 0 ready_world)) = Some 1 \<and>
   returned (generate_question (plain_env empty_then_text) [] [88] 0 ready_world) = Some [111, 107, 33] \<and>
   map_option calls (final_world (generate_question (plain_env empty_then_text) [] [88] 0 ready_world)) = Some 2 \<and>
   map_option (sleeps \<circ> trace) (final_world (generate_question (plain_env empty_then_text) [] [88] 0 ready_world)) = Some 0"
  by (simp add: eval_defs empty_then_text_def FOCUS_POINTS_def CONSTRAINTS_def sleeps_def)

section \<open>The registry\<close>

lemma length_FOCUS_POINTS: "length FOCUS_POINTS = 15"
  by (simp add: FOCUS_POINTS_def)

lemma distinct_FOCUS_POINTS: "distinct FOCUS_POINTS"
  by (simp add: FOCUS_POINTS_def)

lemma card_FOCUS_POINTS: "card (set FOCUS_POINTS) = 15"
  using distinct_card[OF distinct_FOCUS_POINTS] length_FOCUS_POINTS by simp

lemma exhausted_iff:
  "filter (\<lambda>f. f \<notin> used_focuses w) FOCUS_POINTS = [] \<longleftrightarrow> set FOCUS_POINTS \<subseteq> used_focuses w"
  by (auto simp: filter_empty_conv)

lemma pick_focus_cases:
  "\<exists>focus w'. pick_focus e w = (Inr focus, w') \<and> focus \<in> set FOCUS_POINTS \<and>
     (if set FOCUS_POINTS \<subseteq> used_focuses w
      then focus = FOCUS_POINTS ! (random e (draws w) mod length FOCUS_POINTS) \<and>
           used_focuses w' = {focus} \<and>
           events_since w w' =
             [Lock_acquire Focuses, Lock_release Focuses, Lock_acquire Focuses,
              Lock_release Focuses, Lock_acquire Focuses, Lock_release Focuses]
      else focus \<notin> used_focuses w \<and> used_focuses w' = insert focus (used_focuses w) \<and>
           events_since w w' =
             [Lock_acquire Focuses, Lock_release Focuses, Lock_acquire Focuses,
              Lock_release Focuses])"
proof (cases "set FOCUS_POINTS \<subseteq> used_focuses w")
  case True
  then have ex: "filter (\<lambda>f. f \<notin> used_focuses w) FOCUS_POINTS = []"
    by (simp add: exhausted_iff)
  from pick_focus_exhausted[OF ex, of e] obtain focus w' where
    p: "pick_focus e w = (Inr focus, w')"
      "focus = FOCUS_POINTS ! (random e (draws w) mod length FOCUS_POINTS)"
      "used_focuses w' = {focus}"
      "trace w' = trace w @ [Lock_acquire Focuses, Lock_release Focuses, Lock_acquire Focuses,
              Lock_release Focuses, Lock_acquire Focuses, Lock_release Focuses]"
    by blast
  have "focus \<in> set FOCUS_POINTS"
    unfolding p(2) by (rule nth_mod_in_set[OF FOCUS_POINTS_nonempty])
  with p True show ?thesis
    by (simp add: events_since_append)
next
  case False
  let ?av = "filter (\<lambda>f. f \<notin> used_focuses w) FOCUS_POINTS"
  from False have ne: "?av \<noteq> []" by (simp add: exhausted_iff)
  from pick_focus_unused[OF ne, of e] obtain focus w' where
    p: "pick_focus e w = (Inr focus, w')"
      "focus = ?av ! (random e (draws w) mod length ?av)"
      "used_focuses w' = insert focus (used_focuses w)"
      "trace w' = trace w @ [Lock_acquire Focuses, Lock_release Focuses, Lock_acquire Focuses,
              Lock_release Focuses]"
    by blast
  have "focus \<in> set ?av"
    unfolding p(2) using ne by (rule nth_mod_in_set)
  then have "focus \<in> set FOCUS_POINTS" "focus \<notin> used_focuses w" by simp_all
  with p False show ?thesis
    by (simp add: events_since_append)
qed

lemma picks_fresh:
  "used_focuses w \<subseteq> set FOCUS_POINTS \<Longrightarrow> card (used_focuses w) + n \<le> 15 \<Longrightarrow>
   picks e n w = (fs, w') \<Longrightarrow>
   length fs = n \<and> distinct fs \<and> set fs \<inter> used_focuses w = {} \<and> set fs \<subseteq> set FOCUS_POINTS \<and>
   used_focuses w' = used_focuses w \<union> set fs"
proof (induction n arbitrary: w fs w')
  case 0
  then show ?case by simp
next
  case (Suc n)
  have "\<not> set FOCUS_POINTS \<subseteq> used_focuses w"
  proof
    assume "set FOCUS_POINTS \<subseteq> used_focuses w"
    with Suc.prems(1) have "used_focuses w = set FOCUS_POINTS" by blast
    with Suc.prems(2) show False by (simp add: card_FOCUS_POINTS)
  qed
  then have ne: "filter (\<lambda>f. f \<notin> used_focuses w) FOCUS_POINTS \<noteq> []"
    by (simp add: exhausted_iff)
  let ?av = "filter (\<lambda>f. f \<notin> used_focuses w) FOCUS_POINTS"
  from pick_focus_unused[OF ne, of e] obtain focus w1 where
    p: "pick_focus e w = (Inr focus, w1)" "focus = ?av ! (random e (draws w) mod length ?av)"
       "used_focuses w1 = insert focus (used_focuses w)"
    by blast
  have "focus \<in> set ?av" unfolding p(2) using ne by (rule nth_mod_in_set)
  then have f: "focus \<in> set FOCUS_POINTS" "focus \<notin> used_focuses w" by simp_all
  obtain rest w2 where r: "picks e n w1 = (rest, w2)" by (cases "picks e n w1") blast
  with p Suc.prems(3) have fs: "fs = focus # rest" "w' = w2" by simp_all
  have fin: "finite (used_focuses w)" using Suc.prems(1) finite_subset by blast
  have sub1: "used_focuses w1 \<subseteq> set FOCUS_POINTS" using p(3) f Suc.prems(1) by simp
  have card1: "card (used_focuses w1) + n \<le> 15"
    using Suc.prems(2) f(2) fin by (simp add: p(3))
  from Suc.IH[OF sub1 card1 r] have ih: "length rest = n" "distinct rest"
    "set rest \<inter> used_focuses w1 = {}" "set rest \<subseteq> set FOCUS_POINTS"
    "used_focuses w2 = used_focuses w1 \<union> set rest"
    by simp_all
  from ih f show ?case unfolding fs p(3) by auto
qed

lemma picks_cycle:
  assumes "used_focuses w = {}"
  shows "distinct (fst (picks e 15 w)) \<and> set (fst (picks e 15 w)) = set FOCUS_POINTS"
proof -
  obtain fs w' where p: "picks e 15 w = (fs, w')" by (cases "picks e 15 w") blast
  from picks_fresh[OF _ _ p] assms have f: "length fs = 15" "distinct fs" "set fs \<subseteq> set FOCUS_POINTS"
    by simp_all
  then have "card (set fs) = 15" by (simp add: distinct_card)
  with f(3) have "set fs = set FOCUS_POINTS"
    by (simp add: card_FOCUS_POINTS card_subset_eq)
  with f p show ?thesis by simp
qed

text \<open>
  C7, as the code has it. The pick always returns a focus of \<open>FOCUS_POINTS\<close>. While
  some focus is unused, the one returned was not in the set and is added to it. When
  every focus is used, the set is cleared and the focus is drawn from the full list,
  so the set then holds that focus alone. The pick is not one critical section: it
  takes and gives back the lock of the set for the copy, for the clearing when there
  is one, and for the insertion, one after the other with nothing else in between.
  No focus starves: from an empty set, fifteen picks in a row return every focus
  exactly once.
\<close>

theorem pick_focus_unused_or_reset:
  "(\<exists>focus w'. pick_focus e w = (Inr focus, w') \<and> focus \<in> set FOCUS_POINTS \<and>
     (if set FOCUS_POINTS \<subseteq> used_focuses w
      then focus = FOCUS_POINTS ! (random e (draws w) mod length FOCUS_POINTS) \<and>
           used_focuses w' = {focus} \<and>
           events_since w w' =
             [Lock_acquire Focuses, Lock_release Focuses, Lock_acquire Focuses,
              Lock_release Focuses, Lock_acquire Focuses, Lock_release Focuses]
      else focus \<notin> used_focuses w \<and> used_focuses w' = insert focus (used_focuses w) \<and>
           events_since w w' =
             [Lock_acquire Focuses, Lock_release Focuses, Lock_acquire Focuses,
              Lock_release Focuses])) \<and>
   (used_focuses w = {} \<longrightarrow>
      distinct (fst (picks e 15 w)) \<and> set (fst (picks e 15 w)) = set FOCUS_POINTS)"
  using pick_focus_cases[of e w] picks_cycle[of w e] by blast

theorem pick_focus_unused_or_reset_witness:
  "(\<exists>focus w'. pick_focus (plain_env (\<lambda>n. Fails)) ready_world = (Inr focus, w') \<and>
      focus \<in> set FOCUS_POINTS \<and> focus \<notin> used_focuses ready_world \<and>
      used_focuses w' = insert focus (used_focuses ready_world)) \<and>
   used_focuses ready_world = {} \<and>
   distinct (fst (picks (plain_env (\<lambda>n. Fails)) 15 ready_world)) \<and>
   set (fst (picks (plain_env (\<lambda>n. Fails)) 15 ready_world)) = set FOCUS_POINTS"
proof -
  have h: "used_focuses ready_world = {}"
    by (simp add: ready_world_def idle_world_def)
  have n: "\<not> set FOCUS_POINTS \<subseteq> used_focuses ready_world"
    using FOCUS_POINTS_nonempty by (simp add: h)
  from pick_focus_unused_or_reset[of "plain_env (\<lambda>n. Fails)" ready_world] h n
  show ?thesis by auto
qed

text \<open>
  C7 as stated fails on the code: the events of a pick are not those of a single
  critical section.
\<close>

theorem pick_focus_sections_counterexample:
  "\<not> single_section Focuses
       (events_since ready_world (snd (pick_focus (plain_env (\<lambda>n. Fails)) ready_world)))"
  by (simp add: single_section_def is_lock_def events_since_def pick_focus_def
        SafeSet_add_def SafeSet_clear_def SafeSet_get_copy_def data_def set_data_def choice_def
        emit_def ready_world_def idle_world_def plain_env_def FOCUS_POINTS_def Let_def)

lemma generate_question_Return:
  assumes "generate_question e info name qa_id w = Return q w'"
  shows "\<exists>focus es. focus \<in> set FOCUS_POINTS \<and>
           semaphore w' = semaphore w \<and> files w' = files w \<and> writes w' = writes w \<and>
           used_questions w' = insert q (used_questions w) \<and>
           events_since w w' = Sem_acquire # es @ [Sem_release] \<and> filter is_sem es = [] \<and>
           trace w' = trace w @ events_since w w' \<and>
           (if Print (Msg_default_question qa_id) \<in> set (events_since w w')
            then q = default_question name focus
            else valid_question (used_questions w) q \<and>
                 (\<forall>j. Print (Msg_default_question j) \<notin> set (events_since w w'))) \<and>
           (\<forall>j. Print (Msg_default_question j) \<in> set (events_since w w') \<longrightarrow> j = qa_id)"
proof -
  from generate_question_free[OF assms] obtain k where free: "semaphore w = Some (Suc k)" by blast
  from generate_question_summary[OF free, of e info name qa_id]
  obtain q0 w0 focus es where r0: "generate_question e info name qa_id w = Return q0 w0"
    and f: "focus \<in> set FOCUS_POINTS"
    and fr: "semaphore w0 = semaphore w" "files w0 = files w" "writes w0 = writes w"
      "used_questions w0 = insert q0 (used_questions w)"
    and t: "trace w0 = trace w @ Sem_acquire # es @ [Sem_release]" "filter is_sem es = []"
    and c: "(\<exists>n<3. accepted_at (valid_question (used_questions w)) e w n q0 \<and> calls w0 = calls w + n + 1 \<and>
                   (\<forall>j. Print (Msg_default_question j) \<notin> set es))
            \<or> (all_rejected (valid_question (used_questions w)) e w 3 \<and>
                q0 = default_question name focus \<and> calls w0 = calls w + 3 \<and>
                (\<forall>j. Print (Msg_default_question j) \<in> set es \<longleftrightarrow> j = qa_id))"
    by blast
  from r0 assms have eq: "q0 = q" "w0 = w'" by simp_all
  have ev: "events_since w w' = Sem_acquire # es @ [Sem_release]"
    using t(1) unfolding eq by (rule events_since_append)
  have mem: "\<And>j. Print (Msg_default_question j) \<in> set (events_since w w') \<longleftrightarrow>
                 Print (Msg_default_question j) \<in> set es"
    by (simp add: ev)
  have tr: "trace w' = trace w @ events_since w w'"
    using t(1) unfolding eq ev .
  have only: "\<forall>j. Print (Msg_default_question j) \<in> set (events_since w w') \<longrightarrow> j = qa_id"
    unfolding mem using c by blast
  have branch: "if Print (Msg_default_question qa_id) \<in> set (events_since w w')
            then q = default_question name focus
            else valid_question (used_questions w) q \<and>
                 (\<forall>j. Print (Msg_default_question j) \<notin> set (events_since w w'))"
  proof (cases "Print (Msg_default_question qa_id) \<in> set es")
    case True
    with c have "q0 = default_question name focus" by blast
    with True show ?thesis unfolding mem eq by simp
  next
    case False
    with c have "(\<exists>n<3. accepted_at (valid_question (used_questions w)) e w n q0)"
      "\<forall>j. Print (Msg_default_question j) \<notin> set es" by blast+
    then have "valid_question (used_questions w) q" "\<forall>j. Print (Msg_default_question j) \<notin> set es"
      unfolding eq accepted_at_def by blast+
    with False show ?thesis unfolding mem by simp
  qed
  show ?thesis
    using f fr[unfolded eq] ev t(2) tr branch only by blast
qed

text \<open>
  C10. When \<open>generate_question\<close> falls back (it prints the line that says so), the
  question it returns is the template over the item's name and the category of one of
  the focus points, and it is in the registry when the call returns. So a later call,
  in any world whose registry still holds it, cannot return the same text as a
  generated question: a reply equal to it fails the check of line 223.
\<close>

theorem fallback_question_recorded:
  assumes first: "generate_question e info name i w = Return q w1"
    and fallback: "Print (Msg_default_question i) \<in> set (events_since w w1)"
    and later: "used_questions w1 \<subseteq> used_questions w2"
    and second: "generate_question e2 info2 name2 j w2 = Return q2 w3"
    and generated: "Print (Msg_default_question j) \<notin> set (events_since w2 w3)"
  shows "q \<in> default_question name ` set FOCUS_POINTS \<and> q \<in> used_questions w1 \<and> q2 \<noteq> q"
proof -
  from generate_question_Return[OF first] fallback
  have 1: "q \<in> default_question name ` set FOCUS_POINTS" "q \<in> used_questions w1"
    by auto
  from generate_question_Return[OF second] generated
  have "valid_question (used_questions w2) q2" by auto
  then have "q2 \<notin> used_questions w2" by (simp add: valid_question_def)
  with 1 later show ?thesis by auto
qed

theorem fallback_question_recorded_witness:
  "\<exists>q w1 q2 w3.
     generate_question (plain_env all_fail_then_text) [] [88] 0 ready_world = Return q w1 \<and>
     Print (Msg_default_question 0) \<in> set (events_since ready_world w1) \<and>
     used_questions w1 \<subseteq> used_questions w1 \<and>
     generate_question (plain_env all_fail_then_text) [] [88] 1 w1 = Return q2 w3 \<and>
     Print (Msg_default_question 1) \<notin> set (events_since w1 w3) \<and>
     q \<in> default_question [88] ` set FOCUS_POINTS \<and> q \<in> used_questions w1 \<and> q2 \<noteq> q"
proof -
  define r1 where "r1 = generate_question (plain_env all_fail_then_text) [] [88] 0 ready_world"
  define w1 where "w1 = the (final_world r1)"
  define q where "q = the (returned r1)"
  have 1: "generate_question (plain_env all_fail_then_text) [] [88] 0 ready_world = Return q w1"
    unfolding q_def w1_def r1_def
    by (simp add: eval_defs all_fail_then_text_def FOCUS_POINTS_def CONSTRAINTS_def)
  have 2: "Print (Msg_default_question 0) \<in> set (events_since ready_world w1)"
    unfolding q_def w1_def r1_def
    by (simp add: eval_defs all_fail_then_text_def FOCUS_POINTS_def CONSTRAINTS_def events_since_def)
  define r2 where "r2 = generate_question (plain_env all_fail_then_text) [] [88] 1 w1"
  define w3 where "w3 = the (final_world r2)"
  define q2 where "q2 = the (returned r2)"
  have 3: "generate_question (plain_env all_fail_then_text) [] [88] 1 w1 = Return q2 w3"
    unfolding q2_def w3_def r2_def w1_def r1_def
    by (simp add: eval_defs all_fail_then_text_def FOCUS_POINTS_def CONSTRAINTS_def)
  have 4: "Print (Msg_default_question 1) \<notin> set (events_since w1 w3)"
    unfolding q2_def w3_def r2_def w1_def r1_def
    by (simp add: eval_defs all_fail_then_text_def FOCUS_POINTS_def CONSTRAINTS_def events_since_def)
  from fallback_question_recorded[OF 1 2 subset_refl 3 4] 1 2 3 4 show ?thesis by blast
qed

section \<open>The pairs of one item\<close>

lemma events_since_trans:
  "trace w1 = trace w @ events_since w w1 \<Longrightarrow> trace w2 = trace w1 @ events_since w1 w2 \<Longrightarrow>
   events_since w w2 = events_since w w1 @ events_since w1 w2 \<and>
   trace w2 = trace w @ events_since w w2"
proof -
  assume 1: "trace w1 = trace w @ events_since w w1" and 2: "trace w2 = trace w1 @ events_since w1 w2"
  have "trace w2 = trace w @ (events_since w w1 @ events_since w1 w2)"
    by (subst 2, subst 1) simp
  then show ?thesis using events_since_append by metis
qed

lemma default_logged_trans:
  "trace w1 = trace w @ events_since w w1 \<Longrightarrow> trace w2 = trace w1 @ events_since w1 w2 \<Longrightarrow>
   default_logged n w w2 \<longleftrightarrow> default_logged n w w1 \<or> default_logged n w1 w2"
proof -
  assume 1: "trace w1 = trace w @ events_since w w1" and 2: "trace w2 = trace w1 @ events_since w1 w2"
  from events_since_trans[OF 1 2] have "events_since w w2 = events_since w w1 @ events_since w1 w2"
    by simp
  then show ?thesis by (simp add: default_logged_def)
qed

lemma fresh_pairs_refl: "fresh_pairs start [] w w"
  by (simp add: fresh_pairs_def events_since_def default_logged_def)

lemma fresh_pairs_append:
  assumes a: "fresh_pairs start ps1 w w1" and b: "fresh_pairs (start + length ps1) ps2 w1 w2"
  shows "fresh_pairs start (ps1 @ ps2) w w2"
proof -
  from a have a1: "semaphore w1 = semaphore w"
    "used_questions w1 = used_questions w \<union> pair_question ` set ps1"
    "trace w1 = trace w @ events_since w w1"
    and a2: "\<And>n. default_logged n w w1 \<Longrightarrow> start \<le> n \<and> n < start + length ps1"
    and a3: "\<And>j. j < length ps1 \<Longrightarrow> \<not> default_logged (start + j) w w1 \<Longrightarrow>
        pair_question (ps1 ! j) \<notin> used_questions w \<and>
        (\<forall>i<j. pair_question (ps1 ! i) \<noteq> pair_question (ps1 ! j))"
    unfolding fresh_pairs_def by blast+
  from b have b1: "semaphore w2 = semaphore w1"
    "used_questions w2 = used_questions w1 \<union> pair_question ` set ps2"
    "trace w2 = trace w1 @ events_since w1 w2"
    and b2: "\<And>n. default_logged n w1 w2 \<Longrightarrow>
               start + length ps1 \<le> n \<and> n < start + length ps1 + length ps2"
    and b3: "\<And>j. j < length ps2 \<Longrightarrow> \<not> default_logged (start + length ps1 + j) w1 w2 \<Longrightarrow>
        pair_question (ps2 ! j) \<notin> used_questions w1 \<and>
        (\<forall>i<j. pair_question (ps2 ! i) \<noteq> pair_question (ps2 ! j))"
    unfolding fresh_pairs_def by blast+
  note dl = default_logged_trans[OF a1(3) b1(3)]
  have c1: "semaphore w2 = semaphore w" using a1 b1 by simp
  have c2: "used_questions w2 = used_questions w \<union> pair_question ` set (ps1 @ ps2)"
    using a1 b1 by auto
  have c3: "trace w2 = trace w @ events_since w w2"
    using events_since_trans[OF a1(3) b1(3)] by simp
  have c4: "\<forall>n. default_logged n w w2 \<longrightarrow> start \<le> n \<and> n < start + length (ps1 @ ps2)"
  proof (intro allI impI)
    fix n assume "default_logged n w w2"
    then consider "default_logged n w w1" | "default_logged n w1 w2" unfolding dl by blast
    then show "start \<le> n \<and> n < start + length (ps1 @ ps2)"
    proof cases
      case 1 from a2[OF 1] show ?thesis by simp
    next
      case 2 from b2[OF 2] show ?thesis by simp
    qed
  qed
  have c5: "\<forall>j<length (ps1 @ ps2). \<not> default_logged (start + j) w w2 \<longrightarrow>
        pair_question ((ps1 @ ps2) ! j) \<notin> used_questions w \<and>
        (\<forall>i<j. pair_question ((ps1 @ ps2) ! i) \<noteq> pair_question ((ps1 @ ps2) ! j))"
  proof (intro allI impI)
    fix j assume j: "j < length (ps1 @ ps2)" and nd: "\<not> default_logged (start + j) w w2"
    show "pair_question ((ps1 @ ps2) ! j) \<notin> used_questions w \<and>
        (\<forall>i<j. pair_question ((ps1 @ ps2) ! i) \<noteq> pair_question ((ps1 @ ps2) ! j))"
    proof (cases "j < length ps1")
      case True
      from nd have "\<not> default_logged (start + j) w w1" unfolding dl by simp
      from a3[OF True this] True show ?thesis by (simp add: nth_append)
    next
      case False
      define j' where "j' = j - length ps1"
      have j': "j' < length ps2" "j = length ps1 + j'" using False j by (simp_all add: j'_def)
      from nd have "\<not> default_logged (start + length ps1 + j') w1 w2"
        unfolding dl j'(2) by (simp add: add.assoc)
      from b3[OF j'(1) this] have q: "pair_question (ps2 ! j') \<notin> used_questions w1"
        "\<forall>i<j'. pair_question (ps2 ! i) \<noteq> pair_question (ps2 ! j')" by simp_all
      have e: "(ps1 @ ps2) ! j = ps2 ! j'" using j'(2) by (simp add: nth_append)
      have "pair_question (ps2 ! j') \<notin> used_questions w" using q(1) a1(2) by simp
      moreover have "\<forall>i<j. pair_question ((ps1 @ ps2) ! i) \<noteq> pair_question (ps2 ! j')"
      proof (intro allI impI)
        fix i assume i: "i < j"
        show "pair_question ((ps1 @ ps2) ! i) \<noteq> pair_question (ps2 ! j')"
        proof (cases "i < length ps1")
          case True
          have "pair_question (ps1 ! i) \<in> used_questions w1"
            unfolding a1(2) using True by (intro UnI2 imageI nth_mem)
          with q(1) have "pair_question (ps1 ! i) \<noteq> pair_question (ps2 ! j')" by metis
          with True show ?thesis by (simp add: nth_append)
        next
          case False
          then have "i - length ps1 < j'" using i j'(2) by simp
          with q(2) False show ?thesis by (simp add: nth_append)
        qed
      qed
      ultimately show ?thesis unfolding e by simp
    qed
  qed
  show ?thesis unfolding fresh_pairs_def by (intro conjI c1 c2 c3 c4 c5)
qed


lemma generate_answer_Return:
  assumes "generate_answer e info q qa_id w = Return a w'"
  shows "semaphore w' = semaphore w \<and> files w' = files w \<and> writes w' = writes w \<and>
         used_questions w' = used_questions w \<and> trace w' = trace w @ events_since w w' \<and>
         (\<forall>j. \<not> default_logged j w w')"
proof -
  from generate_answer_free[OF assms] obtain k where free: "semaphore w = Some (Suc k)" by blast
  from generate_answer_summary[OF free, of e info q qa_id]
  obtain a0 w0 es where r0: "generate_answer e info q qa_id w = Return a0 w0"
    and fr: "semaphore w0 = semaphore w" "files w0 = files w" "writes w0 = writes w"
      "used_questions w0 = used_questions w"
    and t: "trace w0 = trace w @ Sem_acquire # es @ [Sem_release]"
      "\<forall>j. Print (Msg_default_question j) \<notin> set es"
    by blast
  from r0 assms have eq: "w0 = w'" by simp
  have ev: "events_since w w' = Sem_acquire # es @ [Sem_release]"
    using t(1) unfolding eq by (rule events_since_append)
  have "trace w' = trace w @ events_since w w'" using t(1) unfolding eq ev .
  moreover have "\<forall>j. \<not> default_logged j w w'"
    unfolding default_logged_def ev using t(2) by simp
  ultimately show ?thesis using fr unfolding eq by simp
qed

lemma generate_single_qa_pair_Return:
  assumes "generate_single_qa_pair e product_id info name qa_id w = Return p w'"
  shows "pair_id p = product_id \<and> files w' = files w \<and> writes w' = writes w \<and>
         fresh_pairs qa_id [p] w w'"
proof -
  from assms obtain q w1 a where
    gq: "generate_question e info name qa_id w = Return q w1"
    and ga: "generate_answer e info q qa_id w1 = Return a w'"
    and p: "p = \<lparr>pair_id = product_id, pair_question = q, pair_answer = a\<rparr>"
    by (auto simp: generate_single_qa_pair_def split: result.splits)
  from generate_question_Return[OF gq] obtain focus where
    q1: "semaphore w1 = semaphore w" "files w1 = files w" "writes w1 = writes w"
      "used_questions w1 = insert q (used_questions w)"
      "trace w1 = trace w @ events_since w w1"
    and q2: "if Print (Msg_default_question qa_id) \<in> set (events_since w w1)
            then q = default_question name focus
            else valid_question (used_questions w) q \<and>
                 (\<forall>j. Print (Msg_default_question j) \<notin> set (events_since w w1))"
    and q3: "\<forall>j. Print (Msg_default_question j) \<in> set (events_since w w1) \<longrightarrow> j = qa_id"
    by blast
  from generate_answer_Return[OF ga] have
    a1: "semaphore w' = semaphore w1" "files w' = files w1" "writes w' = writes w1"
      "used_questions w' = used_questions w1" "trace w' = trace w1 @ events_since w1 w'"
    and a2: "\<forall>j. \<not> default_logged j w1 w'"
    by simp_all
  have dl: "\<And>n. default_logged n w w' \<longleftrightarrow> default_logged n w w1"
    using default_logged_trans[OF q1(5) a1(5)] a2 by simp
  have tr: "trace w' = trace w @ events_since w w'"
    using events_since_trans[OF q1(5) a1(5)] by simp
  have c4: "\<forall>n. default_logged n w w' \<longrightarrow> qa_id \<le> n \<and> n < qa_id + length [p]"
  proof (intro allI impI)
    fix n assume "default_logged n w w'"
    then have "default_logged n w w1" by (simp only: dl)
    with q3 have "n = qa_id" by (simp add: default_logged_def)
    then show "qa_id \<le> n \<and> n < qa_id + length [p]" by simp
  qed
  have c5: "\<forall>j<length [p]. \<not> default_logged (qa_id + j) w w' \<longrightarrow>
        pair_question ([p] ! j) \<notin> used_questions w \<and>
        (\<forall>i<j. pair_question ([p] ! i) \<noteq> pair_question ([p] ! j))"
  proof (intro allI impI)
    fix j assume j: "j < length [p]" and nd: "\<not> default_logged (qa_id + j) w w'"
    then have j0: "j = 0" by simp
    from nd have "\<not> default_logged qa_id w w1" by (simp add: dl j0)
    then have "Print (Msg_default_question qa_id) \<notin> set (events_since w w1)"
      by (simp add: default_logged_def)
    with q2 have "valid_question (used_questions w) q" by simp
    then show "pair_question ([p] ! j) \<notin> used_questions w \<and>
        (\<forall>i<j. pair_question ([p] ! i) \<noteq> pair_question ([p] ! j))"
      unfolding j0 by (simp add: p valid_question_def)
  qed
  have c1: "semaphore w' = semaphore w" using q1 a1 by simp
  have c2: "used_questions w' = used_questions w \<union> pair_question ` set [p]"
    using q1 a1 by (simp add: p)
  have "fresh_pairs qa_id [p] w w'"
    unfolding fresh_pairs_def by (intro conjI c1 c2 tr c4 c5)
  moreover have "pair_id p = product_id" by (simp add: p)
  moreover have "files w' = files w" "writes w' = writes w" using q1 a1 by simp_all
  ultimately show ?thesis by simp
qed

lemma generate_single_qa_pair_returns:
  assumes free: "semaphore w = Some (Suc k)"
  shows "\<exists>p w'. generate_single_qa_pair e product_id info name qa_id w = Return p w'"
proof -
  from generate_question_summary[OF free, of e info name qa_id] obtain q w1 where
    gq: "generate_question e info name qa_id w = Return q w1" and s: "semaphore w1 = semaphore w"
    by blast
  from generate_answer_summary[of w1 k e info q qa_id] s free obtain a w2 where
    ga: "generate_answer e info q qa_id w1 = Return a w2"
    by auto
  show ?thesis by (simp add: generate_single_qa_pair_def gq ga)
qed

lemma gather_qa_Return:
  "gather (\<lambda>i. generate_single_qa_pair e product_id info name (start + i)) [a..<a + n] w =
     Return ps w' \<Longrightarrow>
   length ps = n \<and> (\<forall>p\<in>set ps. pair_id p = product_id) \<and> files w' = files w \<and>
   writes w' = writes w \<and> fresh_pairs (start + a) ps w w'"
proof (induction n arbitrary: a w ps w')
  case 0
  then show ?case by (simp add: fresh_pairs_refl)
next
  case (Suc n)
  have u: "[a..<a + Suc n] = a # [Suc a..<Suc a + n]"
    by (simp add: upt_rec)
  from Suc.prems obtain p w1 rest where
    one: "generate_single_qa_pair e product_id info name (start + a) w = Return p w1"
    and more: "gather (\<lambda>i. generate_single_qa_pair e product_id info name (start + i))
                 [Suc a..<Suc a + n] w1 = Return rest w'"
    and ps: "ps = p # rest"
    unfolding u by (auto split: result.splits)
  from generate_single_qa_pair_Return[OF one] have
    p: "pair_id p = product_id" "files w1 = files w" "writes w1 = writes w"
       "fresh_pairs (start + a) [p] w w1" by simp_all
  from Suc.IH[OF more] have
    r: "length rest = n" "\<forall>p\<in>set rest. pair_id p = product_id" "files w' = files w1"
       "writes w' = writes w1" "fresh_pairs (start + Suc a) rest w1 w'" by simp_all
  have "fresh_pairs (start + a) ([p] @ rest) w w'"
    using p(4) r(5) by (intro fresh_pairs_append) simp_all
  with p r show ?case unfolding ps by simp
qed

lemma gather_qa_returns:
  "semaphore w = Some (Suc k) \<Longrightarrow>
   \<exists>ps w'. gather (\<lambda>i. generate_single_qa_pair e product_id info name (start + i)) [a..<a + n] w =
     Return ps w'"
proof (induction n arbitrary: a w)
  case 0
  then show ?case by simp
next
  case (Suc n)
  have u: "[a..<a + Suc n] = a # [Suc a..<Suc a + n]"
    by (simp add: upt_rec)
  from generate_single_qa_pair_returns[OF Suc.prems, of e product_id info name "start + a"]
  obtain p w1 where
    one: "generate_single_qa_pair e product_id info name (start + a) w = Return p w1" by blast
  from generate_single_qa_pair_Return[OF one] have "semaphore w1 = semaphore w"
    by (simp add: fresh_pairs_def)
  with Suc.prems have "semaphore w1 = Some (Suc k)" by simp
  from Suc.IH[OF this, of "Suc a"] obtain rest w' where
    "gather (\<lambda>i. generate_single_qa_pair e product_id info name (start + i))
                 [Suc a..<Suc a + n] w1 = Return rest w'" by blast
  with one show ?case unfolding u by simp
qed

section \<open>The loop over the items\<close>

lemma generate_qa_pair_Return:
  assumes "generate_qa_pair e product_id product num_pairs start w = Return ps w'"
  shows "length ps = nat num_pairs \<and> (\<forall>p\<in>set ps. pair_id p = product_id) \<and> files w' = files w \<and>
         writes w' = writes w \<and> fresh_pairs start ps w w'"
proof -
  have u: "[0..<nat num_pairs] = [0..<0 + nat num_pairs]" by simp
  from assms gather_qa_Return[of e product_id _ _ start 0 "nat num_pairs" w ps w']
  show ?thesis unfolding generate_qa_pair_def Let_def u by simp
qed

lemma generate_qa_pair_returns:
  assumes "semaphore w = Some (Suc k)"
  shows "\<exists>ps w'. generate_qa_pair e product_id product num_pairs start w = Return ps w'"
proof -
  have u: "[0..<nat num_pairs] = [0..<0 + nat num_pairs]" by simp
  from gather_qa_returns[OF assms, of e product_id _ _ start 0 "nat num_pairs"]
  show ?thesis unfolding generate_qa_pair_def Let_def u by blast
qed

lemma save_fresh:
  assumes "save_qa_pairs e qa_pairs output_file w = Return u w'"
  shows "fresh_pairs start [] w w'"
proof -
  from save_qa_pairs_Return[OF assms] have
    s: "semaphore w' = semaphore w" "used_questions w' = used_questions w"
       "trace w' = trace w @ [Print (Msg_saved (length qa_pairs) output_file)]" by simp_all
  have ev: "events_since w w' = [Print (Msg_saved (length qa_pairs) output_file)]"
    using s(3) by (rule events_since_append)
  show ?thesis unfolding fresh_pairs_def default_logged_def ev using s by simp
qed

lemma process_product_Return:
  assumes "process_product e product_id product num_pairs acc output_file start w =
             Return (count, acc') w'"
  shows "\<exists>ps w1. generate_qa_pair e (record_id product_id product) product num_pairs start w =
                    Return ps w1 \<and>
           acc' = acc @ ps \<and> count = length ps \<and> length ps = nat num_pairs \<and>
           (\<forall>p\<in>set ps. pair_id p = record_id product_id product) \<and>
           fresh_pairs start ps w w' \<and> disk e (writes w) = Io_ok \<and>
           files w' = (files w)(output_file \<mapsto> json_dumps acc') \<and> writes w' = writes w + 1"
proof -
  from assms obtain ps w1 u where
    g: "generate_qa_pair e (record_id product_id product) product num_pairs start w = Return ps w1"
    and s: "save_qa_pairs e (acc @ ps) output_file w1 = Return u w'"
    and r: "acc' = acc @ ps" "count = length ps"
    unfolding process_product_def record_id_def Let_def
    by (auto split: result.splits)
  from generate_qa_pair_Return[OF g] have
    g1: "length ps = nat num_pairs" "\<forall>p\<in>set ps. pair_id p = record_id product_id product"
        "files w1 = files w" "writes w1 = writes w" "fresh_pairs start ps w w1" by simp_all
  from save_qa_pairs_Return[OF s] have
    s1: "disk e (writes w1) = Io_ok" "files w' = (files w1)(output_file \<mapsto> json_dumps (acc @ ps))"
        "writes w' = writes w1 + 1" by simp_all
  have "fresh_pairs start (ps @ []) w w'"
    using g1(5) save_fresh[OF s] by (rule fresh_pairs_append)
  then have f: "fresh_pairs start ps w w'" by simp
  show ?thesis
    using g r g1(1,2) f s1 unfolding g1(3,4) by blast
qed


lemma product_loop_present:
  assumes "map_of products product_id = Some product"
    and "product_loop e products num_pairs output_file (product_id # rest) acc tot w = Return acc' w'"
  shows "\<exists>count acc1 w1.
           process_product e product_id product num_pairs acc output_file tot w =
             Return (count, acc1) w1 \<and>
           product_loop e products num_pairs output_file rest acc1 (tot + count) w1 = Return acc' w'"
  using assms by (auto split: result.splits)

lemma product_loop_absent:
  assumes "map_of products product_id = None"
  shows "product_loop e products num_pairs output_file (product_id # rest) acc tot w =
         product_loop e products num_pairs output_file rest acc tot
           (emit [Print (Msg_skipped product_id)] w)"
  using assms by simp

lemma skip_fresh: "fresh_pairs start [] w (emit [Print (Msg_skipped product_id)] w)"
proof -
  have ev: "events_since w (emit [Print (Msg_skipped product_id)] w) = [Print (Msg_skipped product_id)]"
    by (rule events_since_append) (simp add: emit_def)
  show ?thesis unfolding fresh_pairs_def default_logged_def ev by (simp add: emit_def)
qed

lemma product_loop_Return:
  "product_loop e products num_pairs output_file product_ids acc (length acc) w = Return acc' w' \<Longrightarrow>
   \<exists>ps. acc' = acc @ ps \<and> map pair_id ps = expected_ids products num_pairs product_ids \<and>
        fresh_pairs (length acc) ps w w'"
proof (induction product_ids arbitrary: acc w)
  case Nil
  then show ?case by (simp add: expected_ids_def fresh_pairs_refl)
next
  case (Cons product_id rest)
  show ?case
  proof (cases "map_of products product_id")
    case None
    from Cons.prems have
      "product_loop e products num_pairs output_file rest acc (length acc)
         (emit [Print (Msg_skipped product_id)] w) = Return acc' w'"
      by (simp only: product_loop_absent[OF None])
    from Cons.IH[OF this] obtain ps where
      ps: "acc' = acc @ ps" "map pair_id ps = expected_ids products num_pairs rest"
        "fresh_pairs (length acc) ps (emit [Print (Msg_skipped product_id)] w) w'" by blast
    have "fresh_pairs (length acc) ([] @ ps) w w'"
      using skip_fresh[of "length acc" w product_id] ps(3) by (intro fresh_pairs_append) simp_all
    moreover have "expected_ids products num_pairs (product_id # rest) =
                   expected_ids products num_pairs rest"
      by (simp add: expected_ids_def None)
    ultimately show ?thesis using ps by simp
  next
    case (Some product)
    from product_loop_present[OF Some Cons.prems] obtain count acc1 w1 where
      pp: "process_product e product_id product num_pairs acc output_file (length acc) w =
             Return (count, acc1) w1"
      and rest: "product_loop e products num_pairs output_file rest acc1 (length acc + count) w1 =
             Return acc' w'" by blast
    from process_product_Return[OF pp] obtain ps1 where
      p1: "acc1 = acc @ ps1" "count = length ps1" "length ps1 = nat num_pairs"
        "\<forall>p\<in>set ps1. pair_id p = record_id product_id product"
        "fresh_pairs (length acc) ps1 w w1" by blast
    have len: "length acc + count = length acc1" by (simp add: p1)
    from Cons.IH[OF rest[unfolded len]] obtain ps2 where
      p2: "acc' = acc1 @ ps2" "map pair_id ps2 = expected_ids products num_pairs rest"
        "fresh_pairs (length acc1) ps2 w1 w'" by blast
    have ids1: "map pair_id ps1 = replicate (nat num_pairs) (record_id product_id product)"
      using p1(3,4) by (intro replicate_eqI) auto
    have "expected_ids products num_pairs (product_id # rest) =
          replicate (nat num_pairs) (record_id product_id product) @
          expected_ids products num_pairs rest"
      by (simp add: expected_ids_def Some)
    then have ids: "map pair_id (ps1 @ ps2) = expected_ids products num_pairs (product_id # rest)"
      using ids1 p2(2) by simp
    have "fresh_pairs (length acc) (ps1 @ ps2) w w'"
      using p1(5) p2(3) by (intro fresh_pairs_append) (simp_all add: p1(1))
    with ids p1(1) p2(1) show ?thesis by (intro exI[of _ "ps1 @ ps2"]) simp
  qed
qed


lemma fresh_pairs_trace: "fresh_pairs start ps w w' \<Longrightarrow> trace w' = trace w @ events_since w w'"
  by (simp add: fresh_pairs_def)

lemma events_since_union:
  assumes "trace w1 = trace w @ events_since w w1" and "trace w2 = trace w1 @ events_since w1 w2"
  shows "set (events_since w w2) = set (events_since w w1) \<union> set (events_since w1 w2)"
proof -
  from events_since_trans[OF assms] have
    "events_since w w2 = events_since w w1 @ events_since w1 w2" by simp
  then show ?thesis by simp
qed

lemma product_loop_skipped:
  "product_loop e products num_pairs output_file product_ids acc (length acc) w = Return acc' w' \<Longrightarrow>
   \<forall>product_id\<in>set product_ids. map_of products product_id = None \<longrightarrow>
      Print (Msg_skipped product_id) \<in> set (events_since w w')"
proof (induction product_ids arbitrary: acc w)
  case Nil
  then show ?case by simp
next
  case (Cons product_id rest)
  show ?case
  proof (cases "map_of products product_id")
    case None
    define w1 where "w1 = emit [Print (Msg_skipped product_id)] w"
    from Cons.prems have r: "product_loop e products num_pairs output_file rest acc (length acc) w1 =
        Return acc' w'"
      unfolding w1_def by (simp only: product_loop_absent[OF None])
    have t1: "trace w1 = trace w @ events_since w w1"
      using skip_fresh[of 0 w product_id] unfolding w1_def by (rule fresh_pairs_trace)
    have e1: "events_since w w1 = [Print (Msg_skipped product_id)]"
      unfolding w1_def by (rule events_since_append) (simp add: emit_def)
    from product_loop_Return[OF r] have t2: "trace w' = trace w1 @ events_since w1 w'"
      using fresh_pairs_trace by blast
    note u = events_since_union[OF t1 t2]
    from Cons.IH[OF r] show ?thesis unfolding u e1 by simp
  next
    case (Some product)
    from product_loop_present[OF Some Cons.prems] obtain count acc1 w1 where
      pp: "process_product e product_id product num_pairs acc output_file (length acc) w =
             Return (count, acc1) w1"
      and rest: "product_loop e products num_pairs output_file rest acc1 (length acc + count) w1 =
             Return acc' w'" by blast
    from process_product_Return[OF pp] have
      p1: "length acc + count = length acc1" and t1: "trace w1 = trace w @ events_since w w1"
      using fresh_pairs_trace by auto
    from product_loop_Return[OF rest[unfolded p1]] have t2: "trace w' = trace w1 @ events_since w1 w'"
      using fresh_pairs_trace by blast
    note u = events_since_union[OF t1 t2]
    from Cons.IH[OF rest[unfolded p1]] Some show ?thesis unfolding u by simp
  qed
qed

lemma product_loop_files:
  "product_loop e products num_pairs output_file product_ids acc (length acc) w = Return acc' w' \<Longrightarrow>
   (\<exists>product_id\<in>set product_ids. map_of products product_id \<noteq> None) \<or>
     files w output_file = Some (json_dumps acc) \<Longrightarrow>
   files w' output_file = Some (json_dumps acc')"
proof (induction product_ids arbitrary: acc w)
  case Nil
  then show ?case by simp
next
  case (Cons product_id rest)
  show ?case
  proof (cases "map_of products product_id")
    case None
    define w1 where "w1 = emit [Print (Msg_skipped product_id)] w"
    from Cons.prems(1) have r: "product_loop e products num_pairs output_file rest acc (length acc) w1 =
        Return acc' w'"
      unfolding w1_def by (simp only: product_loop_absent[OF None])
    have "files w1 = files w" by (simp add: w1_def emit_def)
    with Cons.prems(2) None have
      "(\<exists>product_id\<in>set rest. map_of products product_id \<noteq> None) \<or>
       files w1 output_file = Some (json_dumps acc)" by auto
    from Cons.IH[OF r this] show ?thesis .
  next
    case (Some product)
    from product_loop_present[OF Some Cons.prems(1)] obtain count acc1 w1 where
      pp: "process_product e product_id product num_pairs acc output_file (length acc) w =
             Return (count, acc1) w1"
      and rest: "product_loop e products num_pairs output_file rest acc1 (length acc + count) w1 =
             Return acc' w'" by blast
    from process_product_Return[OF pp] have
      p1: "length acc + count = length acc1"
      and f: "files w1 output_file = Some (json_dumps acc1)" by auto
    from Cons.IH[OF rest[unfolded p1]] f show ?thesis by simp
  qed
qed

lemma process_product_returns:
  assumes free: "semaphore w = Some (Suc k)" and ok: "disk e (writes w) = Io_ok"
  shows "\<exists>count acc' w'. process_product e product_id product num_pairs acc output_file start w =
           Return (count, acc') w' \<and> semaphore w' = semaphore w \<and> writes w' = writes w + 1"
proof -
  from generate_qa_pair_returns[OF free, of e "record_id product_id product" product num_pairs start]
  obtain ps w1 where
    g: "generate_qa_pair e (record_id product_id product) product num_pairs start w = Return ps w1"
    by blast
  from generate_qa_pair_Return[OF g] have w1: "writes w1 = writes w" "semaphore w1 = semaphore w"
    by (simp_all add: fresh_pairs_def)
  have s: "save_qa_pairs e (acc @ ps) output_file w1 =
          Return () (emit [Print (Msg_saved (length (acc @ ps)) output_file)]
            (w1\<lparr>writes := writes w1 + 1,
                files := (files w1)(output_file \<mapsto> json_dumps (acc @ ps))\<rparr>))"
    using ok by (simp add: save_qa_pairs_def w1 Let_def)
  show ?thesis
    unfolding process_product_def Let_def
    using g s w1 by (simp add: record_id_def emit_def)
qed

lemma product_loop_returns:
  "semaphore w = Some (Suc k) \<Longrightarrow> \<forall>n. disk e n = Io_ok \<Longrightarrow>
   \<exists>acc' w'. product_loop e products num_pairs output_file product_ids acc tot w = Return acc' w'"
proof (induction product_ids arbitrary: acc tot w)
  case Nil
  then show ?case by simp
next
  case (Cons product_id rest)
  show ?case
  proof (cases "map_of products product_id")
    case None
    have "semaphore (emit [Print (Msg_skipped product_id)] w) = Some (Suc k)"
      using Cons.prems(1) by (simp add: emit_def)
    from Cons.IH[OF this Cons.prems(2)] show ?thesis
      by (simp only: product_loop_absent[OF None])
  next
    case (Some product)
    from Cons.prems(2) have ok: "disk e (writes w) = Io_ok" by simp
    from process_product_returns[OF Cons.prems(1) ok, of product_id product num_pairs acc output_file tot]
    obtain count acc1 w1 where
      pp: "process_product e product_id product num_pairs acc output_file tot w =
             Return (count, acc1) w1" and s: "semaphore w1 = semaphore w" by blast
    from s Cons.prems(1) have "semaphore w1 = Some (Suc k)" by simp
    from Cons.IH[OF this Cons.prems(2), of acc1 "tot + count"] obtain acc' w' where
      "product_loop e products num_pairs output_file rest acc1 (tot + count) w1 = Return acc' w'"
      by blast
    with pp Some show ?thesis by simp
  qed
qed

section \<open>The run\<close>

lemma load_one_world:
  "load_one e product d w = (d', w') \<Longrightarrow>
   semaphore w' = semaphore w \<and> files w' = files w \<and> writes w' = writes w \<and>
   used_questions w' = used_questions w \<and> used_focuses w' = used_focuses w \<and>
   calls w' = calls w \<and>
   (\<exists>es. trace w' = trace w @ es \<and> (\<forall>n. Print (Msg_default_question n) \<notin> set es))"
  by (auto simp: load_one_def Let_def emit_def split: if_splits prod.splits option.splits)

lemma load_loop_world:
  "load_loop e raw d w = (d', w') \<Longrightarrow>
   semaphore w' = semaphore w \<and> files w' = files w \<and> writes w' = writes w \<and>
   used_questions w' = used_questions w \<and> used_focuses w' = used_focuses w \<and>
   calls w' = calls w \<and>
   (\<exists>es. trace w' = trace w @ es \<and> (\<forall>n. Print (Msg_default_question n) \<notin> set es))"
proof (induction raw arbitrary: d w)
  case Nil
  then show ?case by simp
next
  case (Cons product rest)
  obtain d1 w1 where one: "load_one e product d w = (d1, w1)" by (cases "load_one e product d w") blast
  with Cons.prems have more: "load_loop e rest d1 w1 = (d', w')" by simp
  from load_one_world[OF one] obtain es1 where
    1: "semaphore w1 = semaphore w" "files w1 = files w" "writes w1 = writes w"
       "used_questions w1 = used_questions w" "used_focuses w1 = used_focuses w" "calls w1 = calls w"
       "trace w1 = trace w @ es1" "\<forall>n. Print (Msg_default_question n) \<notin> set es1" by blast
  from Cons.IH[OF more] obtain es2 where
    2: "semaphore w' = semaphore w1" "files w' = files w1" "writes w' = writes w1"
       "used_questions w' = used_questions w1" "used_focuses w' = used_focuses w1" "calls w' = calls w1"
       "trace w' = trace w1 @ es2" "\<forall>n. Print (Msg_default_question n) \<notin> set es2" by blast
  have "trace w' = trace w @ (es1 @ es2)" "\<forall>n. Print (Msg_default_question n) \<notin> set (es1 @ es2)"
    using 1 2 by simp_all
  then show ?case using 1 2 by (metis (no_types))
qed

lemma load_one_dict:
  "uuids w = uuids v \<Longrightarrow>
   fst (load_one e product d w) = fst (load_one e product d v) \<and>
   uuids (snd (load_one e product d w)) = uuids (snd (load_one e product d v))"
  by (simp add: load_one_def Let_def emit_def split: if_splits prod.splits option.splits)

lemma load_loop_dict:
  "uuids w = uuids v \<Longrightarrow> fst (load_loop e raw d w) = fst (load_loop e raw d v)"
proof (induction raw arbitrary: d w v)
  case Nil
  then show ?case by simp
next
  case (Cons product rest)
  from load_one_dict[OF Cons.prems, of e product d] have
    a: "fst (load_one e product d w) = fst (load_one e product d v)"
    and b: "uuids (snd (load_one e product d w)) = uuids (snd (load_one e product d v))" by simp_all
  from Cons.IH[OF b, of "fst (load_one e product d w)"] a
  show ?case by (simp add: split_beta)
qed

lemma main_async_unfold:
  assumes "0 \<le> concurrency"
  shows "main_async e (Some raw) product_ids num_pairs output_file concurrency w =
         product_loop e (loaded e raw w) num_pairs output_file
           (requested product_ids (loaded e raw w)) [] 0 (started e raw concurrency w)"
proof -
  have "fst (load_loop e raw [] (w\<lparr>semaphore := Some (nat concurrency)\<rparr>)) = loaded e raw w"
    unfolding loaded_def by (rule load_loop_dict) simp
  then show ?thesis
    using assms
    by (cases product_ids)
       (simp_all add: main_async_def load_products_def Let_def started_def requested_def split_beta)
qed

lemma main_async_Return_source:
  "main_async e source product_ids num_pairs output_file concurrency w = Return acc w' \<Longrightarrow>
   0 \<le> concurrency \<and> (\<exists>raw. source = Some raw)"
  by (cases source) (auto simp: main_async_def load_products_def Let_def split: if_splits)

lemma started_world:
  "semaphore (started e raw concurrency w) = Some (nat concurrency) \<and>
   used_questions (started e raw concurrency w) = {} \<and>
   files (started e raw concurrency w) = files w \<and>
   writes (started e raw concurrency w) = writes w \<and>
   trace (started e raw concurrency w) = trace w @ events_since w (started e raw concurrency w) \<and>
   (\<forall>n. \<not> default_logged n w (started e raw concurrency w))"
proof -
  define w0 where "w0 = w\<lparr>semaphore := Some (nat concurrency)\<rparr>"
  obtain d w1 where l: "load_loop e raw [] w0 = (d, w1)" by (cases "load_loop e raw [] w0") blast
  from load_loop_world[OF l] obtain es where
    1: "semaphore w1 = semaphore w0" "files w1 = files w0" "writes w1 = writes w0"
       "trace w1 = trace w0 @ es" "\<forall>n. Print (Msg_default_question n) \<notin> set es" by blast
  have s: "started e raw concurrency w = SafeSet_clear Questions (SafeSet_clear Focuses w1)"
    by (simp add: started_def w0_def[symmetric] l)
  have t: "trace (started e raw concurrency w) =
           trace w @ (es @ [Lock_acquire Focuses, Lock_release Focuses,
                            Lock_acquire Questions, Lock_release Questions])"
    unfolding s using 1(4) by (simp add: prim_defs w0_def)
  note ev = events_since_append[OF t]
  have "trace (started e raw concurrency w) = trace w @ events_since w (started e raw concurrency w)"
    unfolding ev using t .
  moreover have "\<forall>n. \<not> default_logged n w (started e raw concurrency w)"
    unfolding default_logged_def ev using 1(5) by simp
  moreover have "semaphore (started e raw concurrency w) = Some (nat concurrency)"
    "used_questions (started e raw concurrency w) = {}"
    "files (started e raw concurrency w) = files w"
    "writes (started e raw concurrency w) = writes w"
    unfolding s using 1 by (simp_all add: prim_defs w0_def)
  ultimately show ?thesis by simp
qed


lemma update_entryI:
  "p KEY_id = Some k \<Longrightarrow> \<exists>k' p'. AList.update k p d = AList.update k' p' d \<and> p' KEY_id = Some k'"
  by blast

lemma load_one_entry:
  assumes "load_one e product d w = (d', w')"
  shows "\<exists>k p. d' = AList.update k p d \<and> (consistent_ids product \<longrightarrow> p KEY_id = Some k)"
proof -
  have k: "KEY_cn_id \<noteq> KEY_id" by (simp add: KEY_cn_id_def KEY_id_def)
  show ?thesis
  proof (cases "consistent_ids product")
    case True
    with assms k have "\<exists>k p. d' = AList.update k p d \<and> p KEY_id = Some k"
      by (auto simp: load_one_def Let_def consistent_ids_def truthy_def
            split: if_splits prod.splits option.splits intro!: update_entryI)
    then show ?thesis by blast
  next
    case False
    from assms have "\<exists>k p. d' = AList.update k p d"
      by (auto simp: load_one_def Let_def split: if_splits prod.splits option.splits)
    with False show ?thesis by blast
  qed
qed

lemma load_loop_keys:
  "load_loop e raw d w = (d', w') \<Longrightarrow> distinct (map fst d) \<Longrightarrow> distinct (map fst d')"
proof (induction raw arbitrary: d w)
  case Nil
  then show ?case by simp
next
  case (Cons product rest)
  obtain d1 w1 where one: "load_one e product d w = (d1, w1)" by (cases "load_one e product d w") blast
  with Cons.prems have more: "load_loop e rest d1 w1 = (d', w')" by simp
  from load_one_entry[OF one] obtain k p where "d1 = AList.update k p d" by blast
  with Cons.prems(2) have "distinct (map fst d1)" by (simp add: distinct_update)
  from Cons.IH[OF more this] show ?case .
qed

lemma load_loop_consistent:
  "load_loop e raw d w = (d', w') \<Longrightarrow> \<forall>product\<in>set raw. consistent_ids product \<Longrightarrow>
   \<forall>k p. map_of d k = Some p \<longrightarrow> p KEY_id = Some k \<Longrightarrow>
   \<forall>k p. map_of d' k = Some p \<longrightarrow> p KEY_id = Some k"
proof (induction raw arbitrary: d w)
  case Nil
  then show ?case by simp
next
  case (Cons product rest)
  obtain d1 w1 where one: "load_one e product d w = (d1, w1)" by (cases "load_one e product d w") blast
  with Cons.prems(1) have more: "load_loop e rest d1 w1 = (d', w')" by simp
  from load_one_entry[OF one] Cons.prems(2) obtain k p where
    d1: "d1 = AList.update k p d" and kp: "p KEY_id = Some k" by auto
  have inv: "\<forall>k' p'. map_of d1 k' = Some p' \<longrightarrow> p' KEY_id = Some k'"
    using Cons.prems(3) kp unfolding d1 by (simp add: update_conv')
  from Cons.prems(2) have "\<forall>product\<in>set rest. consistent_ids product" by simp
  from Cons.IH[OF more this inv] show ?case .
qed

lemma loaded_distinct: "distinct (map fst (loaded e raw w))"
proof -
  obtain d w' where l: "load_loop e raw [] w = (d, w')" by (cases "load_loop e raw [] w") blast
  from load_loop_keys[OF l] show ?thesis by (simp add: loaded_def l)
qed

lemma loaded_consistent:
  assumes "\<forall>product\<in>set raw. consistent_ids product" and "map_of (loaded e raw w) k = Some p"
  shows "record_id k p = k"
proof -
  obtain d w' where l: "load_loop e raw [] w = (d, w')" by (cases "load_loop e raw [] w") blast
  from load_loop_consistent[OF l assms(1)] assms(2) have "p KEY_id = Some k"
    by (simp add: loaded_def l)
  then show ?thesis by (simp add: record_id_def)
qed

lemma length_expected_ids:
  "length (expected_ids products num_pairs ids) =
   nat num_pairs * length (filter (\<lambda>i. map_of products i \<noteq> None) ids)"
  by (induction ids) (auto simp: expected_ids_def split: option.splits)

lemma expected_ids_present:
  assumes "\<forall>i\<in>set ids. \<exists>p. map_of products i = Some p \<and> record_id i p = i"
  shows "expected_ids products num_pairs ids = concat (map (replicate (nat num_pairs)) ids)"
  using assms by (induction ids) (auto simp: expected_ids_def)

lemma main_async_loop:
  assumes "main_async e source product_ids num_pairs output_file concurrency w = Return acc w'"
  shows "\<exists>raw. source = Some raw \<and> 0 \<le> concurrency \<and>
           product_loop e (loaded e raw w) num_pairs output_file
             (requested product_ids (loaded e raw w)) [] (length ([] :: qa_pair list))
             (started e raw concurrency w) = Return acc w'"
proof -
  from main_async_Return_source[OF assms] obtain raw where
    s: "source = Some raw" "0 \<le> concurrency" by blast
  from assms show ?thesis
    unfolding s(1) main_async_unfold[OF s(2)] using s by simp
qed

section \<open>Properties of a run\<close>

lemma ready_free: "semaphore ready_world = Some (Suc 0)"
  by (simp add: ready_world_def idle_world_def)


lemmas load_defs = loaded_def load_one_def truthy_def KEY_id_def KEY_cn_id_def Let_def emit_def

lemma three_keys: "map fst (loaded e three_items w) = [[65], [66], [67]]"
  by (simp add: load_defs three_items_def update_keys)

lemma three_consistent: "\<forall>product\<in>set three_items. consistent_ids product"
  by (simp add: three_items_def consistent_ids_def truthy_def KEY_id_def KEY_cn_id_def)

lemma relabelled_keys: "map fst (loaded e [relabelled_item] w) = [[65]]"
  by (simp add: load_defs relabelled_item_def)

lemma relabelled_expected:
  "expected_ids (loaded e [relabelled_item] w) 1 [[65]] = [[66]]"
  by (simp add: load_defs relabelled_item_def expected_ids_def record_id_def)

lemma three_expected_BA:
  "expected_ids (loaded e three_items w) 1 [[66], [65]] = [[66], [65]]"
  by (simp add: load_defs three_items_def expected_ids_def record_id_def)

lemma three_expected_AXB:
  "expected_ids (loaded e three_items w) 2 [[65], [88], [66]] = [[65], [65], [66], [66]]"
  by (simp add: load_defs three_items_def expected_ids_def record_id_def numeral_2_eq_2)


lemma plain_disk: "\<forall>n. disk (plain_env svc) n = Io_ok"
  by (simp add: plain_env_def)

lemma returned_Return: "returned (Return x w) = Some x"
  by (simp add: returned_def)

lemma main_async_result:
  assumes slots: "0 < concurrency" and disk_ok: "\<forall>n. disk e n = Io_ok"
  shows "\<exists>acc w'.
           main_async e (Some raw) product_ids num_pairs output_file concurrency w = Return acc w' \<and>
           map pair_id acc =
             expected_ids (loaded e raw w) num_pairs (requested product_ids (loaded e raw w)) \<and>
           length acc =
             nat num_pairs *
             length (filter (\<lambda>i. map_of (loaded e raw w) i \<noteq> None)
                       (requested product_ids (loaded e raw w))) \<and>
           (\<forall>product_id\<in>set (requested product_ids (loaded e raw w)).
              map_of (loaded e raw w) product_id = None \<longrightarrow>
              Print (Msg_skipped product_id) \<in> set (events_since w w'))"
proof -
  let ?products = "loaded e raw w"
  let ?ids = "requested product_ids ?products"
  let ?w3 = "started e raw concurrency w"
  from slots have k: "0 \<le> concurrency" by simp
  note u = main_async_unfold[OF k, of e raw product_ids num_pairs output_file w]
  from slots have "semaphore ?w3 = Some (Suc (nat concurrency - 1))"
    using started_world[of e raw concurrency w] by simp
  from product_loop_returns[OF this disk_ok, of ?products num_pairs output_file ?ids "[]" 0]
  obtain acc w' where
    loop: "product_loop e ?products num_pairs output_file ?ids [] (length ([] :: qa_pair list)) ?w3 =
           Return acc w'" by auto
  from product_loop_Return[OF loop] have
    ids: "map pair_id acc = expected_ids ?products num_pairs ?ids"
    and t2: "trace w' = trace ?w3 @ events_since ?w3 w'"
    using fresh_pairs_trace by auto
  have "length (map pair_id acc) = nat num_pairs * length (filter (\<lambda>i. map_of ?products i \<noteq> None) ?ids)"
    unfolding ids by (rule length_expected_ids)
  then have len: "length acc = nat num_pairs * length (filter (\<lambda>i. map_of ?products i \<noteq> None) ?ids)"
    by simp
  from started_world[of e raw concurrency w] have t1: "trace ?w3 = trace w @ events_since w ?w3"
    by simp
  note un = events_since_union[OF t1 t2]
  have sk: "\<forall>product_id\<in>set ?ids. map_of ?products product_id = None \<longrightarrow>
              Print (Msg_skipped product_id) \<in> set (events_since w w')"
    using product_loop_skipped[OF loop] unfolding un by simp
  have "main_async e (Some raw) product_ids num_pairs output_file concurrency w = Return acc w'"
    unfolding u using loop by simp
  with ids len sk show ?thesis by blast
qed

text \<open>
  C6. With at least one slot in the semaphore, a disk that takes every write and a
  number of pairs that is not negative, the run returns whatever ids are requested.
  Its pairs are those of the requested ids that the catalog has, \<open>num_pairs\<close> for
  each, in the order of the request; an id that the catalog does not have adds
  nothing, raises nothing, and the warning naming it is printed.
\<close>

theorem absent_ids_skipped:
  assumes slots: "0 < concurrency" and disk_ok: "\<forall>n. disk e n = Io_ok"
    and count: "0 \<le> num_pairs"
  shows "\<exists>acc w'.
           main_async e (Some raw) product_ids num_pairs output_file concurrency w = Return acc w' \<and>
           map pair_id acc =
             expected_ids (loaded e raw w) num_pairs (requested product_ids (loaded e raw w)) \<and>
           int (length acc) =
             num_pairs *
             int (length (filter (\<lambda>i. map_of (loaded e raw w) i \<noteq> None)
                       (requested product_ids (loaded e raw w)))) \<and>
           (\<forall>product_id\<in>set (requested product_ids (loaded e raw w)).
              map_of (loaded e raw w) product_id = None \<longrightarrow>
              Print (Msg_skipped product_id) \<in> set (events_since w w'))"
proof -
  from main_async_result[OF slots disk_ok, of raw product_ids num_pairs output_file w]
  obtain acc w' where
    r: "main_async e (Some raw) product_ids num_pairs output_file concurrency w = Return acc w'"
      "map pair_id acc =
         expected_ids (loaded e raw w) num_pairs (requested product_ids (loaded e raw w))"
      "length acc =
             nat num_pairs *
             length (filter (\<lambda>i. map_of (loaded e raw w) i \<noteq> None)
                       (requested product_ids (loaded e raw w)))"
      "\<forall>product_id\<in>set (requested product_ids (loaded e raw w)).
              map_of (loaded e raw w) product_id = None \<longrightarrow>
              Print (Msg_skipped product_id) \<in> set (events_since w w')"
    by blast
  from r(3) count have
    "int (length acc) =
       num_pairs * int (length (filter (\<lambda>i. map_of (loaded e raw w) i \<noteq> None)
                       (requested product_ids (loaded e raw w))))"
    by simp
  with r(1,2,4) show ?thesis by blast
qed

theorem absent_ids_skipped_witness:
  "(0 :: int) < 1 \<and> (\<forall>n. disk (plain_env empty_then_text) n = Io_ok) \<and> (0 :: int) \<le> 2 \<and>
   (\<exists>acc w'.
      main_async (plain_env empty_then_text) (Some three_items) (Some [[65], [88], [66]]) 2
        out_json 1 idle_world = Return acc w' \<and>
      map pair_id acc = [[65], [65], [66], [66]] \<and> length acc = 4 \<and>
      Print (Msg_skipped [88]) \<in> set (events_since idle_world w'))"
proof -
  let ?e = "plain_env empty_then_text"
  have h: "(0 :: int) < 1" "(0 :: int) \<le> 2" by simp_all
  have absent: "map_of (loaded ?e three_items idle_world) [88] = None"
    by (simp add: map_of_eq_None_iff image_set three_keys del: set_map)
  have present: "filter (\<lambda>i. map_of (loaded ?e three_items idle_world) i \<noteq> None)
                   [[65], [88], [66]] = [[65], [66]]"
    by (simp add: map_of_eq_None_iff image_set three_keys del: set_map)
  from absent_ids_skipped[OF h(1) plain_disk h(2), of empty_then_text three_items
         "Some [[65], [88], [66]]" out_json idle_world]
  obtain acc w' where
    r: "main_async ?e (Some three_items) (Some [[65], [88], [66]]) 2 out_json 1 idle_world =
          Return acc w'"
       "map pair_id acc = expected_ids (loaded ?e three_items idle_world) 2 [[65], [88], [66]]"
       "int (length acc) = 2 * int (length (filter (\<lambda>i. map_of (loaded ?e three_items idle_world) i \<noteq> None)
                   [[65], [88], [66]]))"
       "\<forall>product_id\<in>set [[65], [88], [66]].
              map_of (loaded ?e three_items idle_world) product_id = None \<longrightarrow>
              Print (Msg_skipped product_id) \<in> set (events_since idle_world w')"
    unfolding requested_def option.case by blast
  from r(3) have "length acc = 4" unfolding present by simp
  moreover from r(4) absent have "Print (Msg_skipped [88]) \<in> set (events_since idle_world w')"
    by simp
  ultimately show ?thesis using r(1,2) h plain_disk by (simp add: three_expected_AXB)
qed

text \<open>
  C1, as the code has it. When a run returns and the catalog has every requested id,
  its pairs come in groups of \<open>num_pairs\<close>, one group for each requested id, in the
  order of the request; the id written in a group is the item's own \<open>id\<close> attribute
  (line 342). With no ids given, the request is the keys of the catalog in the order
  in which \<open>load_products\<close> met them, each once. When no item of the file carries two
  different ids, the id written is the requested one, so that each requested id has
  exactly \<open>num_pairs\<close> pairs.
\<close>

theorem main_async_records:
  assumes run: "main_async e (Some raw) product_ids num_pairs output_file concurrency w =
                  Return acc w'"
    and present: "\<forall>product_id\<in>set (requested product_ids (loaded e raw w)).
                    map_of (loaded e raw w) product_id \<noteq> None"
  shows "map pair_id acc =
           expected_ids (loaded e raw w) num_pairs (requested product_ids (loaded e raw w)) \<and>
         length acc = nat num_pairs * length (requested product_ids (loaded e raw w)) \<and>
         ((\<forall>product\<in>set raw. consistent_ids product) \<longrightarrow>
            map pair_id acc =
              concat (map (replicate (nat num_pairs)) (requested product_ids (loaded e raw w)))) \<and>
         (product_ids = None \<longrightarrow>
            requested product_ids (loaded e raw w) = map fst (loaded e raw w) \<and>
            distinct (requested product_ids (loaded e raw w)))"
proof -
  let ?products = "loaded e raw w"
  let ?ids = "requested product_ids ?products"
  from main_async_loop[OF run] have
    loop: "product_loop e ?products num_pairs output_file ?ids [] (length ([] :: qa_pair list))
             (started e raw concurrency w) = Return acc w'" by simp
  from product_loop_Return[OF loop] have
    ids: "map pair_id acc = expected_ids ?products num_pairs ?ids" by auto
  have f: "filter (\<lambda>i. map_of ?products i \<noteq> None) ?ids = ?ids"
    using present by (simp add: filter_id_conv)
  have "length (map pair_id acc) = nat num_pairs * length (filter (\<lambda>i. map_of ?products i \<noteq> None) ?ids)"
    unfolding ids by (rule length_expected_ids)
  then have len: "length acc = nat num_pairs * length ?ids"
    unfolding f by simp
  have cons: "(\<forall>product\<in>set raw. consistent_ids product) \<longrightarrow>
            map pair_id acc = concat (map (replicate (nat num_pairs)) ?ids)"
  proof
    assume c: "\<forall>product\<in>set raw. consistent_ids product"
    have "\<forall>i\<in>set ?ids. \<exists>p. map_of ?products i = Some p \<and> record_id i p = i"
    proof
      fix i assume "i \<in> set ?ids"
      with present obtain p where p: "map_of ?products i = Some p" by auto
      from loaded_consistent[OF c p] p show "\<exists>p. map_of ?products i = Some p \<and> record_id i p = i"
        by blast
    qed
    from expected_ids_present[OF this] ids
    show "map pair_id acc = concat (map (replicate (nat num_pairs)) ?ids)" by simp
  qed
  have dflt: "product_ids = None \<longrightarrow> ?ids = map fst ?products \<and> distinct ?ids"
    using loaded_distinct[of e raw w] by (simp add: requested_def)
  from ids len cons dflt show ?thesis by blast
qed

theorem main_async_records_witness:
  "\<exists>acc w'.
     main_async (plain_env empty_then_text) (Some three_items) None 2 out_json 1 idle_world =
       Return acc w' \<and>
     requested None (loaded (plain_env empty_then_text) three_items idle_world) =
       [[65], [66], [67]] \<and>
     map pair_id acc = [[65], [65], [66], [66], [67], [67]] \<and> length acc = 6"
proof -
  let ?e = "plain_env empty_then_text"
  have ids: "requested None (loaded ?e three_items idle_world) = [[65], [66], [67]]"
    by (simp add: requested_def three_keys)
  from main_async_result[OF _ plain_disk, of 1 empty_then_text three_items None 2 out_json idle_world]
  obtain acc w' where
    run: "main_async ?e (Some three_items) None 2 out_json 1 idle_world = Return acc w'"
    by auto
  have present: "\<forall>product_id\<in>set (requested None (loaded ?e three_items idle_world)).
                    map_of (loaded ?e three_items idle_world) product_id \<noteq> None"
    unfolding requested_def option.case by (simp add: map_of_eq_None_iff)
  from main_async_records[OF run present] have
    a: "(\<forall>product\<in>set three_items. consistent_ids product) \<longrightarrow>
          map pair_id acc =
            concat (map (replicate (nat 2)) (requested None (loaded ?e three_items idle_world)))"
    and b: "length acc = nat 2 * length (requested None (loaded ?e three_items idle_world))"
    by blast+
  from a three_consistent have
    "map pair_id acc =
       concat (map (replicate (nat 2)) (requested None (loaded ?e three_items idle_world)))"
    by blast
  then have c: "map pair_id acc = [[65], [65], [66], [66], [67], [67]]"
    unfolding ids by (simp add: numeral_2_eq_2)
  from b have d: "length acc = 6" unfolding ids by simp
  show ?thesis by (intro exI[of _ acc] exI[of _ w'] conjI run ids c d)
qed

text \<open>
  C1 as stated fails on the code. Asked for the second and then the first item of a
  catalog, the run puts the pairs of the second item first: the order is that of the
  request, not of the catalog. And an item filed under one id whose \<open>id\<close> attribute
  is another gets its pairs under the attribute: the requested id has no pair.
\<close>

theorem records_order_counterexample:
  "map_option (map pair_id)
     (returned (main_async (plain_env empty_then_text) (Some three_items) (Some [[66], [65]]) 1
                  out_json 1 idle_world)) = Some [[66], [65]] \<and>
   map fst (loaded (plain_env empty_then_text) three_items idle_world) = [[65], [66], [67]] \<and>
   map_option (map pair_id)
     (returned (main_async (plain_env empty_then_text) (Some [relabelled_item]) None 1
                  out_json 1 idle_world)) = Some [[66]] \<and>
   requested None (loaded (plain_env empty_then_text) [relabelled_item] idle_world) = [[65]]"
proof -
  let ?e = "plain_env empty_then_text"
  from main_async_result[OF _ plain_disk, of 1 empty_then_text three_items "Some [[66], [65]]" 1
         out_json idle_world]
  obtain acc w' where
    "main_async ?e (Some three_items) (Some [[66], [65]]) 1 out_json 1 idle_world = Return acc w'"
    "map pair_id acc = expected_ids (loaded ?e three_items idle_world) 1
                         (requested (Some [[66], [65]]) (loaded ?e three_items idle_world))"
    by auto
  then have 1: "map_option (map pair_id)
     (returned (main_async ?e (Some three_items) (Some [[66], [65]]) 1 out_json 1 idle_world)) =
       Some [[66], [65]]"
    by (simp add: returned_Return requested_def three_expected_BA)
  have ids: "requested None (loaded ?e [relabelled_item] idle_world) = [[65]]"
    by (simp add: requested_def relabelled_keys)
  from main_async_result[OF _ plain_disk, of 1 empty_then_text "[relabelled_item]" None 1
         out_json idle_world]
  obtain acc2 w2 where
    "main_async ?e (Some [relabelled_item]) None 1 out_json 1 idle_world = Return acc2 w2"
    "map pair_id acc2 = expected_ids (loaded ?e [relabelled_item] idle_world) 1
                         (requested None (loaded ?e [relabelled_item] idle_world))"
    by auto
  then have 2: "map_option (map pair_id)
     (returned (main_async ?e (Some [relabelled_item]) None 1 out_json 1 idle_world)) = Some [[66]]"
    by (simp add: returned_Return ids relabelled_expected)
  from 1 2 ids three_keys[of ?e idle_world] show ?thesis by simp
qed



lemma process_product_write_fails:
  assumes gen: "generate_qa_pair e (record_id product_id product) product num_pairs start w =
                  Return ps w1"
    and fail: "disk e (writes w1) \<noteq> Io_ok"
  shows "\<exists>w2. process_product e product_id product num_pairs acc output_file start w =
                 Raise OSError w2 \<and>
              trace w2 = trace w1 \<and> calls w2 = calls w1 \<and> writes w2 = writes w1 + 1"
  using fail
  by (cases "disk e (writes w1)")
     (simp_all add: process_product_def record_id_def[symmetric] gen save_qa_pairs_def Let_def)

lemma product_loop_append:
  "product_loop e products num_pairs output_file (xs @ ys) acc (length acc) w =
   (case product_loop e products num_pairs output_file xs acc (length acc) w of
      Return acc1 w1 \<Rightarrow> product_loop e products num_pairs output_file ys acc1 (length acc1) w1
    | Raise err w1 \<Rightarrow> Raise err w1
    | Hang \<Rightarrow> Hang)"
proof (induction xs arbitrary: acc w)
  case Nil
  show ?case by simp
next
  case (Cons product_id rest)
  show ?case
  proof (cases "map_of products product_id")
    case None
    show ?thesis
      using Cons.IH[of acc "emit [Print (Msg_skipped product_id)] w"] by (simp add: None)
  next
    case (Some product)
    show ?thesis
    proof (cases "process_product e product_id product num_pairs acc output_file (length acc) w")
      case (Return r w1)
      obtain count acc1 where r: "r = (count, acc1)" by (cases r) blast
      from process_product_Return[OF Return[unfolded r]] have
        len: "length acc + count = length acc1" by auto
      show ?thesis
        using Cons.IH[of acc1 w1] by (simp add: Some Return r len)
    next
      case (Raise err w1)
      then show ?thesis by (simp add: Some)
    next
      case Hang
      then show ?thesis by (simp add: Some)
    qed
  qed
qed

text \<open>
  C5. Let the loop of \<open>main_async\<close> have gone through the ids before some item,
  and let the pairs of that item be generated. If the write of the checkpoint then
  fails, \<open>process_product\<close> raises the error and so does \<open>main_async\<close>: nothing
  is printed and the service is not called after the failed write, whatever ids
  are still to come.
\<close>

theorem write_failure_aborts:
  assumes slots: "0 \<le> concurrency"
    and position: "requested product_ids (loaded e raw w) = before @ product_id # rest"
    and earlier: "product_loop e (loaded e raw w) num_pairs output_file before [] 0
                    (started e raw concurrency w) = Return acc w1"
    and present: "map_of (loaded e raw w) product_id = Some product"
    and gen: "generate_qa_pair e (record_id product_id product) product num_pairs (length acc) w1 =
                Return ps w2"
    and fail: "disk e (writes w2) \<noteq> Io_ok"
  shows "\<exists>w3. process_product e product_id product num_pairs acc output_file (length acc) w1 =
                 Raise OSError w3 \<and>
              main_async e (Some raw) product_ids num_pairs output_file concurrency w =
                 Raise OSError w3 \<and>
              trace w3 = trace w2 \<and> calls w3 = calls w2 \<and> writes w3 = writes w2 + 1"
proof -
  from process_product_write_fails[OF gen fail, of acc output_file] obtain w3 where
    pp: "process_product e product_id product num_pairs acc output_file (length acc) w1 =
           Raise OSError w3"
    and w3: "trace w3 = trace w2" "calls w3 = calls w2" "writes w3 = writes w2 + 1" by blast
  have here: "product_loop e (loaded e raw w) num_pairs output_file (product_id # rest) acc
                (length acc) w1 = Raise OSError w3"
    by (simp add: present pp)
  have "product_loop e (loaded e raw w) num_pairs output_file (before @ product_id # rest) []
          (length ([] :: qa_pair list)) (started e raw concurrency w) = Raise OSError w3"
    unfolding product_loop_append using earlier here by simp
  then have "main_async e (Some raw) product_ids num_pairs output_file concurrency w =
               Raise OSError w3"
    unfolding main_async_unfold[OF slots] position by simp
  with pp w3 show ?thesis by blast
qed

theorem write_failure_aborts_witness:
  "\<exists>product ps w2 w3.
     (0 :: int) \<le> 1 \<and>
     requested None (loaded failing_disk [one_item] idle_world) = [] @ [65] # [] \<and>
     product_loop failing_disk (loaded failing_disk [one_item] idle_world) 2 out_json [] [] 0
       (started failing_disk [one_item] 1 idle_world) =
       Return [] (started failing_disk [one_item] 1 idle_world) \<and>
     map_of (loaded failing_disk [one_item] idle_world) [65] = Some product \<and>
     generate_qa_pair failing_disk (record_id [65] product) product 2 (length ([] :: qa_pair list))
       (started failing_disk [one_item] 1 idle_world) = Return ps w2 \<and>
     disk failing_disk (writes w2) \<noteq> Io_ok \<and>
     main_async failing_disk (Some [one_item]) None 2 out_json 1 idle_world = Raise OSError w3 \<and>
     trace w3 = trace w2 \<and> calls w3 = calls w2"
proof -
  let ?w = "started failing_disk [one_item] 1 idle_world"
  have k: "(0 :: int) \<le> 1" by simp
  have keys: "map fst (loaded failing_disk [one_item] idle_world) = [[65]]"
    by (simp add: load_defs one_item_def)
  have pos: "requested None (loaded failing_disk [one_item] idle_world) = [] @ [65] # []"
    by (simp add: requested_def keys)
  have earlier: "product_loop failing_disk (loaded failing_disk [one_item] idle_world) 2 out_json
                   [] [] 0 ?w = Return [] ?w"
    by simp
  have "map_of (loaded failing_disk [one_item] idle_world) [65] \<noteq> None"
    by (simp add: map_of_eq_None_iff image_set keys del: set_map)
  then obtain product where
    present: "map_of (loaded failing_disk [one_item] idle_world) [65] = Some product" by blast
  have "semaphore ?w = Some (Suc 0)"
    using started_world[of failing_disk "[one_item]" 1 idle_world] by simp
  from generate_qa_pair_returns[OF this, of failing_disk "record_id [65] product" product 2
         "length ([] :: qa_pair list)"]
  obtain ps w2 where
    gen: "generate_qa_pair failing_disk (record_id [65] product) product 2
            (length ([] :: qa_pair list)) ?w = Return ps w2" by blast
  have fail: "disk failing_disk (writes w2) \<noteq> Io_ok"
    by (simp add: failing_disk_def)
  from write_failure_aborts[OF k pos earlier present gen fail] obtain w3 where
    "main_async failing_disk (Some [one_item]) None 2 out_json 1 idle_world = Raise OSError w3"
    "trace w3 = trace w2" "calls w3 = calls w2" by blast
  with k pos earlier present gen fail show ?thesis by blast
qed

text \<open>
  C4. When \<open>process_product\<close> returns, the output file holds the serialisation of
  the whole list of pairs, the earlier ones followed by the \<open>num_pairs\<close> new ones,
  whatever the file held before. When the loop over the ids returns, the file holds
  the serialisation of all pairs if an item was processed or the file held the pairs
  the loop started with: an id that is skipped writes nothing.
\<close>

theorem checkpoint_after_every_item:
  "(process_product e product_id product num_pairs acc output_file start w =
      Return (count, acc') w' \<longrightarrow>
    files w' output_file = Some (json_dumps acc') \<and> count = nat num_pairs \<and>
    length acc' = length acc + nat num_pairs \<and> take (length acc) acc' = acc) \<and>
   (product_loop e products num_pairs output_file product_ids acc (length acc) w =
      Return acc'' w'' \<and>
    ((\<exists>i\<in>set product_ids. map_of products i \<noteq> None) \<or>
     files w output_file = Some (json_dumps acc)) \<longrightarrow>
    files w'' output_file = Some (json_dumps acc''))"
proof (intro conjI impI)
  assume pp: "process_product e product_id product num_pairs acc output_file start w =
      Return (count, acc') w'"
  from process_product_Return[OF pp] obtain ps where
    "acc' = acc @ ps" "count = length ps" "length ps = nat num_pairs"
    "files w' = (files w)(output_file \<mapsto> json_dumps acc')" by blast
  then show "files w' output_file = Some (json_dumps acc')" "count = nat num_pairs"
    "length acc' = length acc + nat num_pairs" "take (length acc) acc' = acc"
    by simp_all
next
  assume "product_loop e products num_pairs output_file product_ids acc (length acc) w =
      Return acc'' w'' \<and>
    ((\<exists>i\<in>set product_ids. map_of products i \<noteq> None) \<or>
     files w output_file = Some (json_dumps acc))"
  then show "files w'' output_file = Some (json_dumps acc'')"
    using product_loop_files by blast
qed

theorem checkpoint_after_every_item_witness:
  "(\<exists>count acc' w'.
      process_product (plain_env empty_then_text) [65] one_item 2 [] out_json 0 ready_world =
        Return (count, acc') w' \<and>
      files w' out_json = Some (json_dumps acc') \<and> count = 2 \<and> length acc' = 2) \<and>
   (\<exists>acc'' w''.
      product_loop (plain_env empty_then_text) [([65], one_item)] 2 out_json [[65], [88]] []
        (length ([] :: qa_pair list)) ready_world = Return acc'' w'' \<and>
      map_of [([65 :: nat], one_item)] [65] \<noteq> None \<and>
      files w'' out_json = Some (json_dumps acc''))"
proof -
  let ?e = "plain_env empty_then_text"
  have ok: "disk ?e (writes ready_world) = Io_ok" by (simp add: plain_env_def)
  from process_product_returns[OF ready_free ok, of "[65]" one_item 2 "[]" out_json 0]
  obtain count acc' w' where
    pp: "process_product ?e [65] one_item 2 [] out_json 0 ready_world = Return (count, acc') w'"
    by blast
  from product_loop_returns[OF ready_free plain_disk, of empty_then_text "[([65], one_item)]" 2
         out_json "[[65], [88]]" "[]" "length ([] :: qa_pair list)"]
  obtain acc'' w'' where
    pl: "product_loop ?e [([65], one_item)] 2 out_json [[65], [88]] []
           (length ([] :: qa_pair list)) ready_world = Return acc'' w''" by blast
  have pr: "\<exists>i\<in>set [[65 :: nat], [88]]. map_of [([65], one_item)] i \<noteq> None" by simp
  from checkpoint_after_every_item[of ?e "[65]" one_item 2 "[]" out_json 0 ready_world count acc' w'
         "[([65], one_item)]" "[[65], [88]]" acc'' w''] pp pl pr
  have "files w' out_json = Some (json_dumps acc')" "count = 2" "length acc' = 2"
    "files w'' out_json = Some (json_dumps acc'')"
    by simp_all
  with pp pl show ?thesis by auto
qed

end
